theory Spec2Isabelle
  imports Complex_Main
begin

section \<open>Numbers and their text form\<close>

text \<open>
  The engine computes with C++ \<^verbatim>\<open>float\<close>. Three kinds of numbers occur. The strength
  field of a signal, the parameters of a gate, thresholds and connection weights are
  numbers that the program stores, clamps and compares; they are kept as real numbers, a
  stored number standing for the \<^verbatim>\<open>float\<close> nearest to it. The membrane potential of a
  neuron and the strengths read from payloads are results of \<^verbatim>\<open>float\<close> arithmetic and of
  \<^verbatim>\<open>std::stof\<close>; they can be infinite or NaN and are values of the type \<open>float\<close> below.
  Numbers that travel through a signal payload are text (\<^verbatim>\<open>std::to_string\<close> writes them,
  \<^verbatim>\<open>std::stof\<close> reads them), and they are text here as well.
\<close>

definition clamp01 :: "real \<Rightarrow> real" where
  \<comment> \<open>\<^verbatim>\<open>std::min(1.0f, std::max(0.0f, v))\<close>\<close>
  "clamp01 v = min 1 (max 0 v)"

datatype float =
    Finite bool real
  | Infinity bool
  | NaN bool

text \<open>
  A value of \<^verbatim>\<open>float\<close>: a sign bit (True is the minus sign) with a magnitude, an infinity
  or a NaN. Zero has a sign, as in the binary format. The literals \<^verbatim>\<open>0.0f\<close> and \<^verbatim>\<open>1.0f\<close>
  are written \<open>0\<close> and \<open>1\<close>.
\<close>

instantiation float :: "{zero, one}"
begin

definition zero_float :: float where
  "zero_float = Finite False 0"

definition one_float :: float where
  "one_float = Finite False 1"

instance ..

end

definition round_half_even :: "real \<Rightarrow> nat" where
  \<comment> \<open>rounding of a non-negative number to the nearest integer, ties to even\<close>
  "round_half_even x =
     (let n = nat \<lfloor>x\<rfloor>; r = x - real n
      in if r > 1/2 \<or> (r = 1/2 \<and> odd n) then n + 1 else n)"

definition pow2 :: "int \<Rightarrow> real" where
  "pow2 k = (if 0 \<le> k then 2 ^ nat k else 1 / 2 ^ nat (- k))"

function halvings :: "real \<Rightarrow> nat" where
  \<comment> \<open>how often a number is halved until it is below 2\<close>
  "halvings m = (if m < 2 then 0 else Suc (halvings (m / 2)))"
  by pat_completeness auto

termination
proof (relation "measure (\<lambda>m. nat \<lfloor>m\<rfloor>)")
  show "wf (measure (\<lambda>m. nat \<lfloor>m\<rfloor>))"
    by simp
next
  fix m :: real
  assume large: "\<not> m < 2"
  then have "m / 2 \<le> m - 1"
    by simp
  then have "\<lfloor>m / 2\<rfloor> \<le> \<lfloor>m - 1\<rfloor>"
    by (rule floor_mono)
  moreover have "\<lfloor>m - 1\<rfloor> = \<lfloor>m\<rfloor> - 1"
    by simp
  moreover have "1 \<le> \<lfloor>m\<rfloor>"
    using large by (simp add: le_floor_iff)
  ultimately show "(m / 2, m) \<in> measure (\<lambda>m. nat \<lfloor>m\<rfloor>)"
    by simp
qed

fun doublings :: "nat \<Rightarrow> real \<Rightarrow> nat" where
  \<comment> \<open>how often a number is doubled until it is at least 1, at most \<open>k\<close> times\<close>
  "doublings k m = (if 1 \<le> m \<or> k = 0 then 0 else Suc (doublings (k - 1) (2 * m)))"

declare halvings.simps [simp del] doublings.simps [simp del]

definition binade :: "real \<Rightarrow> int" where
  \<comment> \<open>the binary exponent of a magnitude in the single format: the exponent of the leading
      bit, and \<open>-126\<close> for everything below the normal range\<close>
  "binade m = (if 1 \<le> m then int (halvings m) else - int (doublings 126 m))"

definition round_mag :: "real \<Rightarrow> real" where
  \<comment> \<open>the nearest magnitude with 24 significant bits, ties to even\<close>
  "round_mag m = (let ulp = pow2 (binade m - 23) in real (round_half_even (m / ulp)) * ulp)"

definition round_to :: "bool \<Rightarrow> real \<Rightarrow> float" where
  \<comment> \<open>rounding of a magnitude with its sign to the single format; what rounds to
      \<open>2 ^ 128\<close> overflows\<close>
  "round_to sg m = (let r = round_mag m in if pow2 128 \<le> r then Infinity sg else Finite sg r)"

definition f32 :: "real \<Rightarrow> float" where
  \<comment> \<open>the \<^verbatim>\<open>float\<close> that a stored number or a literal such as \<^verbatim>\<open>0.5f\<close> stands for\<close>
  "f32 x = round_to (x < 0) \<bar>x\<bar>"

text \<open>
  The arithmetic of \<^verbatim>\<open>float\<close> and the two text conversions belong to the platform, not
  to the program. The program is embedded over a platform \<open>P\<close> that supplies them: the
  operators \<^verbatim>\<open>+\<close>, \<^verbatim>\<open>*\<close>, \<^verbatim>\<open>/\<close>, \<^verbatim>\<open><\<close>, \<^verbatim>\<open>>\<close> and \<^verbatim>\<open>>=\<close> on \<^verbatim>\<open>float\<close>, the conversion of a
  \<^verbatim>\<open>size_t\<close> to \<^verbatim>\<open>float\<close>, \<^verbatim>\<open>std::to_string(float)\<close>, and \<^verbatim>\<open>std::stof\<close>, whose result
  \<open>None\<close> stands for either of the exceptions it throws.
\<close>

record platform =
  f_add :: "float \<Rightarrow> float \<Rightarrow> float"
  f_mul :: "float \<Rightarrow> float \<Rightarrow> float"
  f_div :: "float \<Rightarrow> float \<Rightarrow> float"
  f_less :: "float \<Rightarrow> float \<Rightarrow> bool"
  f_greater :: "float \<Rightarrow> float \<Rightarrow> bool"
  f_ge :: "float \<Rightarrow> float \<Rightarrow> bool"
  f_of_size :: "nat \<Rightarrow> float"
  to_string :: "float \<Rightarrow> string"
  stof :: "string \<Rightarrow> float option"

subsection \<open>A platform of reference\<close>

text \<open>
  The platform on which the examples are evaluated: IEEE 754 single precision with
  rounding to nearest, ties to even, every operation rounded to \<^verbatim>\<open>float\<close>, as the SSE
  unit of an x86-64 processor computes; text conversions as the GNU C library and
  libstdc++ make them in the C locale. An operation with a NaN operand returns the first
  NaN operand, an invalid operation returns the NaN with the sign bit set.
\<close>

definition signed :: "bool \<Rightarrow> real \<Rightarrow> real" where
  "signed sg m = (if sg then - m else m)"

fun ieee_add :: "float \<Rightarrow> float \<Rightarrow> float" where
  "ieee_add (NaN s) y = NaN s"
| "ieee_add (Infinity s) (NaN t) = NaN t"
| "ieee_add (Finite s x) (NaN t) = NaN t"
| "ieee_add (Infinity s) (Infinity t) = (if s = t then Infinity s else NaN True)"
| "ieee_add (Infinity s) (Finite t y) = Infinity s"
| "ieee_add (Finite s x) (Infinity t) = Infinity t"
| "ieee_add (Finite s x) (Finite t y) =
     (let v = signed s x + signed t y in if v = 0 then Finite (s \<and> t) 0 else f32 v)"

fun ieee_mul :: "float \<Rightarrow> float \<Rightarrow> float" where
  "ieee_mul (NaN s) y = NaN s"
| "ieee_mul (Infinity s) (NaN t) = NaN t"
| "ieee_mul (Finite s x) (NaN t) = NaN t"
| "ieee_mul (Infinity s) (Infinity t) = Infinity (s \<noteq> t)"
| "ieee_mul (Infinity s) (Finite t y) = (if y = 0 then NaN True else Infinity (s \<noteq> t))"
| "ieee_mul (Finite s x) (Infinity t) = (if x = 0 then NaN True else Infinity (s \<noteq> t))"
| "ieee_mul (Finite s x) (Finite t y) = round_to (s \<noteq> t) (x * y)"

fun ieee_div :: "float \<Rightarrow> float \<Rightarrow> float" where
  "ieee_div (NaN s) y = NaN s"
| "ieee_div (Infinity s) (NaN t) = NaN t"
| "ieee_div (Finite s x) (NaN t) = NaN t"
| "ieee_div (Infinity s) (Infinity t) = NaN True"
| "ieee_div (Infinity s) (Finite t y) = Infinity (s \<noteq> t)"
| "ieee_div (Finite s x) (Infinity t) = Finite (s \<noteq> t) 0"
| "ieee_div (Finite s x) (Finite t y) =
     (if y = 0 then (if x = 0 then NaN True else Infinity (s \<noteq> t))
      else round_to (s \<noteq> t) (x / y))"

fun ieee_less :: "float \<Rightarrow> float \<Rightarrow> bool" where
  "ieee_less (NaN s) y = False"
| "ieee_less (Infinity s) (NaN t) = False"
| "ieee_less (Finite s x) (NaN t) = False"
| "ieee_less (Infinity s) (Infinity t) = (s \<and> \<not> t)"
| "ieee_less (Infinity s) (Finite t y) = s"
| "ieee_less (Finite s x) (Infinity t) = (\<not> t)"
| "ieee_less (Finite s x) (Finite t y) = (signed s x < signed t y)"

definition ieee_greater :: "float \<Rightarrow> float \<Rightarrow> bool" where
  "ieee_greater x y = ieee_less y x"

definition ieee_of_size :: "nat \<Rightarrow> float" where
  \<comment> \<open>the conversion of a \<^verbatim>\<open>size_t\<close> to \<^verbatim>\<open>float\<close>\<close>
  "ieee_of_size k = f32 (real k)"

fun ieee_ge :: "float \<Rightarrow> float \<Rightarrow> bool" where
  "ieee_ge (NaN s) y = False"
| "ieee_ge (Infinity s) (NaN t) = False"
| "ieee_ge (Finite s x) (NaN t) = False"
| "ieee_ge (Infinity s) (Infinity t) = (t \<or> \<not> s)"
| "ieee_ge (Infinity s) (Finite t y) = (\<not> s)"
| "ieee_ge (Finite s x) (Infinity t) = t"
| "ieee_ge (Finite s x) (Finite t y) = (signed t y \<le> signed s x)"

definition digit_char :: "nat \<Rightarrow> char" where
  "digit_char d = ''0123456789'' ! (d mod 10)"

fun dec_digits :: "nat \<Rightarrow> string" where
  "dec_digits n = (if n < 10 then [digit_char n] else dec_digits (n div 10) @ [digit_char (n mod 10)])"

declare dec_digits.simps [simp del]

definition pad6 :: "string \<Rightarrow> string" where
  \<comment> \<open>left-pad the fraction digits with zeros to six places\<close>
  "pad6 ds = drop (length ds) ''000000'' @ ds"

definition glibc_to_string :: "float \<Rightarrow> string" where
  \<comment> \<open>\<^verbatim>\<open>std::to_string(float)\<close>, that is \<^verbatim>\<open>printf("%f")\<close> of the value: sign, integer part and
      six decimals of a finite value, rounded from its exact binary expansion\<close>
  "glibc_to_string v =
     (case v of
        NaN sg \<Rightarrow> (if sg then ''-nan'' else ''nan'')
      | Infinity sg \<Rightarrow> (if sg then ''-inf'' else ''inf'')
      | Finite sg x \<Rightarrow>
          (let m = round_half_even (x * 1000000)
           in (if sg then ''-'' else '''') @ dec_digits (m div 1000000) @ ''.'' @
              pad6 (dec_digits (m mod 1000000))))"

definition is_space :: "char \<Rightarrow> bool" where
  "is_space c = (c = CHR '' '' \<or> c = CHR 0x09 \<or> c = CHR 0x0A \<or> c = CHR 0x0B
                 \<or> c = CHR 0x0C \<or> c = CHR 0x0D)"

definition digit_val :: "nat \<Rightarrow> char \<Rightarrow> nat option" where
  \<comment> \<open>the value of a decimal or hexadecimal digit, from its character code\<close>
  "digit_val base c =
     (let k = (of_char c :: nat)
      in if 48 \<le> k \<and> k \<le> 57 then Some (k - 48)
         else if base = 16 \<and> 97 \<le> k \<and> k \<le> 102 then Some (k - 87)
         else if base = 16 \<and> 65 \<le> k \<and> k \<le> 70 then Some (k - 55)
         else None)"

fun take_digits :: "nat \<Rightarrow> string \<Rightarrow> nat list \<times> string" where
  \<comment> \<open>the longest prefix of digits, and the rest\<close>
  "take_digits base [] = ([], [])"
| "take_digits base (c # cs) =
     (case digit_val base c of
        None \<Rightarrow> ([], c # cs)
      | Some d \<Rightarrow> (let (ds, rest) = take_digits base cs in (d # ds, rest)))"

definition digits_nat :: "nat \<Rightarrow> nat list \<Rightarrow> nat" where
  "digits_nat base ds = foldl (\<lambda>acc d. base * acc + d) 0 ds"

definition take_sign :: "string \<Rightarrow> bool \<times> string" where
  \<comment> \<open>an optional sign; True means negative\<close>
  "take_sign s =
     (case s of
        [] \<Rightarrow> (False, [])
      | c # cs \<Rightarrow> if c = CHR ''-'' then (True, cs) else if c = CHR ''+'' then (False, cs)
                  else (False, c # cs))"

definition letter_is :: "char \<Rightarrow> char \<Rightarrow> bool" where
  \<comment> \<open>\<open>c\<close> is the lower-case letter \<open>l\<close> or its capital\<close>
  "letter_is l c = (c = l \<or> (of_char c :: nat) + 32 = of_char l)"

definition take_exponent :: "char \<Rightarrow> string \<Rightarrow> int" where
  \<comment> \<open>an optional exponent \<^verbatim>\<open>e[+-]ddd\<close> or \<^verbatim>\<open>p[+-]ddd\<close>; 0 when there is none\<close>
  "take_exponent mark s =
     (case s of
        [] \<Rightarrow> 0
      | c # cs \<Rightarrow>
          if letter_is mark c then
            (let (neg, r) = take_sign cs; (ds, _) = take_digits 10 r
             in if ds = [] then 0 else if neg then - int (digits_nat 10 ds) else int (digits_nat 10 ds))
          else 0)"

definition mantissa :: "nat \<Rightarrow> string \<Rightarrow> (real \<times> string) option" where
  \<comment> \<open>digits with an optional fraction, at least one digit in all; the value and the rest\<close>
  "mantissa base r =
     (let (ip, r1) = take_digits base r;
          (fp, r2) = (case r1 of
                        [] \<Rightarrow> ([], [])
                      | c # cs \<Rightarrow> if c = CHR ''.'' then take_digits base cs else ([], c # cs))
      in if ip = [] \<and> fp = [] then None
         else Some (real (digits_nat base ip) + real (digits_nat base fp) / real base ^ length fp, r2))"

definition scaled :: "real \<Rightarrow> real \<Rightarrow> int \<Rightarrow> real" where
  "scaled b m e = (if e < 0 then m / b ^ nat (- e) else m * b ^ nat e)"

definition number_value :: "string \<Rightarrow> real option" where
  \<comment> \<open>the exact value of the longest numeral at the head of a text: hexadecimal notation
      after \<^verbatim>\<open>0x\<close> when a hexadecimal digit follows, decimal notation otherwise\<close>
  "number_value r =
     (case (case r of
              c0 # c1 # cs \<Rightarrow> if c0 = CHR ''0'' \<and> letter_is (CHR ''x'') c1 then mantissa 16 cs else None
            | _ \<Rightarrow> None) of
        Some (m, rest) \<Rightarrow> Some (scaled 2 m (take_exponent (CHR ''p'') rest))
      | None \<Rightarrow>
          (case mantissa 10 r of
             Some (m, rest) \<Rightarrow> Some (scaled 10 m (take_exponent (CHR ''e'') rest))
           | None \<Rightarrow> None))"

definition has_word :: "string \<Rightarrow> string \<Rightarrow> bool" where
  \<comment> \<open>the text starts with the word, in any mix of cases\<close>
  "has_word word s = (length word \<le> length s \<and> list_all2 letter_is word (take (length word) s))"

definition glibc_stof :: "string \<Rightarrow> float option" where
  \<comment> \<open>\<^verbatim>\<open>std::stof\<close>, that is \<^verbatim>\<open>strtof\<close> and the two exceptions made from its outcome: leading
      white space, an optional sign, then \<^verbatim>\<open>inf\<close>, \<^verbatim>\<open>nan\<close> or a numeral; trailing characters
      are ignored. The value of a numeral is rounded once to \<^verbatim>\<open>float\<close>. \<open>None\<close> is
      \<^verbatim>\<open>std::invalid_argument\<close> when nothing can be read, and \<^verbatim>\<open>std::out_of_range\<close> when
      \<^verbatim>\<open>strtof\<close> reports a range error: the value overflows, or it is below the normal
      range after rounding and is not represented exactly.\<close>
  "glibc_stof s =
     (let (neg, r) = take_sign (dropWhile is_space s)
      in if has_word ''inf'' r then Some (Infinity neg)
         else if has_word ''nan'' r then Some (NaN neg)
         else
           (case number_value r of
              None \<Rightarrow> None
            | Some q \<Rightarrow>
                (case round_to neg q of
                   Finite sg m \<Rightarrow>
                     if m \<noteq> q \<and> q < pow2 (- 126) - pow2 (- 151) then None else Some (Finite sg m)
                 | _ \<Rightarrow> None)))"

definition ieee_glibc :: platform where
  "ieee_glibc =
     \<lparr> f_add = ieee_add, f_mul = ieee_mul, f_div = ieee_div, f_less = ieee_less,
       f_greater = ieee_greater, f_ge = ieee_ge, f_of_size = ieee_of_size,
       to_string = glibc_to_string, stof = glibc_stof \<rparr>"

section \<open>Signals (class Synapse)\<close>

datatype SynapseType = EXCITATORY | INHIBITORY | MODULATORY

record Synapse =
  syn_id :: string
  sourceId :: string
  targetId :: string
  syn_type :: SynapseType
  strength :: real
  stringPayload :: "string \<rightharpoonup> string"
  syn_tags :: "string list"

definition Synapse_new :: "string \<Rightarrow> SynapseType \<Rightarrow> real \<Rightarrow> Synapse" where
  \<comment> \<open>\<^verbatim>\<open>Synapse(id, type, strength)\<close>; the constructor without an id takes a fresh UUID as id\<close>
  "Synapse_new i ty v =
     \<lparr> syn_id = i, sourceId = '''', targetId = '''', syn_type = ty, strength = clamp01 v,
       stringPayload = Map.empty, syn_tags = [] \<rparr>"

definition setSourceId :: "string \<Rightarrow> Synapse \<Rightarrow> Synapse" where
  "setSourceId v s = s\<lparr>sourceId := v\<rparr>"

definition setTargetId :: "string \<Rightarrow> Synapse \<Rightarrow> Synapse" where
  "setTargetId v s = s\<lparr>targetId := v\<rparr>"

definition getStrength :: "Synapse \<Rightarrow> real" where
  "getStrength s = strength s"

definition setStrength :: "real \<Rightarrow> Synapse \<Rightarrow> Synapse" where
  "setStrength v s = s\<lparr>strength := clamp01 v\<rparr>"

definition hasData :: "string \<Rightarrow> Synapse \<Rightarrow> bool" where
  "hasData k s = (stringPayload s k \<noteq> None)"

definition setData :: "string \<Rightarrow> string \<Rightarrow> Synapse \<Rightarrow> Synapse" where
  \<comment> \<open>\<^verbatim>\<open>setData<std::string>\<close>; a number is passed as its text\<close>
  "setData k v s = s\<lparr>stringPayload := (stringPayload s)(k \<mapsto> v)\<rparr>"

definition getData :: "string \<Rightarrow> Synapse \<Rightarrow> string" where
  \<comment> \<open>\<^verbatim>\<open>getData<std::string>\<close>: the empty string for a missing key\<close>
  "getData k s = (case stringPayload s k of None \<Rightarrow> '''' | Some v \<Rightarrow> v)"

definition addTag :: "string \<Rightarrow> Synapse \<Rightarrow> Synapse" where
  "addTag t s = (if t \<in> set (syn_tags s) then s else s\<lparr>syn_tags := syn_tags s @ [t]\<rparr>)"

definition derive :: "string \<Rightarrow> real \<Rightarrow> Synapse \<Rightarrow> Synapse" where
  \<comment> \<open>\<^verbatim>\<open>derive(derivedStrength)\<close>; the first argument is the UUID drawn for the copy, the
      default of \<^verbatim>\<open>derivedStrength\<close> is \<open>-1\<close>\<close>
  "derive uuid derivedStrength s =
     (let newStrength = (if derivedStrength \<ge> 0 then derivedStrength else strength s);
          d0 = Synapse_new uuid (syn_type s) newStrength;
          d1 = setTargetId (targetId s) (setSourceId (sourceId s) d0);
          d2 = foldl (\<lambda>d t. addTag t d) d1 (syn_tags s)
      in setData ''derived_from'' (syn_id s) d2)"

definition combine_keys :: "string \<Rightarrow> (string \<times> string) list \<Rightarrow> Synapse \<Rightarrow> Synapse" where
  \<comment> \<open>the two copy loops of \<^verbatim>\<open>combine\<close>: every entry but the reserved keys, under a suffixed name\<close>
  "combine_keys suffix kvs c =
     foldl (\<lambda>c (k, v). if k = ''source'' \<or> k = ''target'' \<or> k = ''strength'' then c
                         else setData (k @ suffix) v c) c kvs"

definition combine :: "string \<Rightarrow> (string \<times> string) list \<Rightarrow> (string \<times> string) list \<Rightarrow>
    Synapse option \<Rightarrow> Synapse \<Rightarrow> Synapse" where
  \<comment> \<open>\<^verbatim>\<open>combine(other)\<close>; \<open>kvs1\<close> and \<open>kvs2\<close> are the payload entries of the two signals in
      the iteration order of their hash maps\<close>
  "combine uuid kvs1 kvs2 other s =
     (case other of
        None \<Rightarrow> derive uuid (-1) s
      | Some o' \<Rightarrow>
          (let c0 = Synapse_new uuid (syn_type s) ((strength s + getStrength o') / 2);
               c1 = setTargetId (targetId o') (setSourceId (sourceId s) c0);
               c2 = foldl (\<lambda>d t. addTag t d) c1 (syn_tags s);
               c3 = foldl (\<lambda>d t. addTag t d) c2 (syn_tags o');
               c4 = setData ''combined_from_2'' (syn_id o') (setData ''combined_from_1'' (syn_id s) c3)
           in combine_keys ''_2'' kvs2 (combine_keys ''_1'' kvs1 c4)))"

section \<open>Gates (class NeuronGate and its subclasses)\<close>

datatype GateType = AND | OR | NOT | XOR | THRESHOLD | MODULATOR | CUSTOM

record NeuronGate =
  gate_id :: string
  gate_type :: GateType
  gate_threshold :: real
  active :: bool
  adaptationRate :: real
  factor :: real
  processor :: "string \<Rightarrow> Synapse option list \<Rightarrow> Synapse option"

text \<open>
  A gate's input is a vector of shared pointers; \<open>None\<close> is the null pointer. Every
  \<open>process\<close> takes the UUID that \<^verbatim>\<open>derive\<close> draws when the gate produces an output.
  The fields \<open>factor\<close> and \<open>processor\<close> belong to the subclasses ModulatorGate and
  CustomGate.
\<close>

definition stamp :: "NeuronGate \<Rightarrow> string \<Rightarrow> Synapse \<Rightarrow> Synapse" where
  \<comment> \<open>the three lines "Add gate information" that end every activating branch\<close>
  "stamp g kind r = addTag ''gate_processed'' (setData ''gate_type'' kind (setData ''gate_id'' (gate_id g) r))"

definition AndGate_process :: "NeuronGate \<Rightarrow> string \<Rightarrow> Synapse option list \<Rightarrow> Synapse option" where
  "AndGate_process g uuid inputs =
     (if inputs = [] then None
      else if list_all (\<lambda>i. case i of None \<Rightarrow> False | Some s \<Rightarrow> \<not> getStrength s < gate_threshold g) inputs
      then
        (let result = derive uuid (-1) (the (hd inputs));
             totalStrength = foldl (\<lambda>acc i. acc + getStrength (the i)) 0 inputs;
             avgStrength = totalStrength / real (length inputs)
         in Some (stamp g ''AND'' (setStrength avgStrength result)))
      else None)"

definition OrGate_process :: "NeuronGate \<Rightarrow> string \<Rightarrow> Synapse option list \<Rightarrow> Synapse option" where
  "OrGate_process g uuid inputs =
     (if inputs = [] then None
      else
        (let (strongestInput, maxStrength) =
               foldl (\<lambda>(best, mx) i.
                        case i of
                          None \<Rightarrow> (best, mx)
                        | Some s \<Rightarrow> if getStrength s \<ge> gate_threshold g \<and> getStrength s > mx
                                    then (Some s, getStrength s) else (best, mx))
                     (None, 0) inputs
         in case strongestInput of
              None \<Rightarrow> None
            | Some s \<Rightarrow> Some (stamp g ''OR'' (derive uuid (-1) s))))"

definition NotGate_process :: "NeuronGate \<Rightarrow> string \<Rightarrow> Synapse option list \<Rightarrow> Synapse option" where
  "NotGate_process g uuid inputs =
     (case inputs of
        [] \<Rightarrow> None
      | None # _ \<Rightarrow> None
      | Some input # _ \<Rightarrow>
          Some (stamp g ''NOT'' (setStrength (1 - getStrength input) (derive uuid (-1) input))))"

definition XorGate_process :: "NeuronGate \<Rightarrow> string \<Rightarrow> Synapse option list \<Rightarrow> Synapse option" where
  "XorGate_process g uuid inputs =
     (case inputs of
        [Some i0, Some i1] \<Rightarrow>
          (let strength1 = getStrength i0;
               strength2 = getStrength i1;
               input1Above = (strength1 \<ge> gate_threshold g);
               input2Above = (strength2 \<ge> gate_threshold g)
           in if (input1Above \<and> \<not> input2Above) \<or> (\<not> input1Above \<and> input2Above) then
                (let result = derive uuid (-1) (if input1Above then i0 else i1);
                     strengthDiff = \<bar>strength1 - strength2\<bar>
                 in Some (stamp g ''XOR'' (setStrength strengthDiff result)))
              else None)
      | _ \<Rightarrow> None)"

definition ThresholdGate_process :: "NeuronGate \<Rightarrow> string \<Rightarrow> Synapse option list \<Rightarrow> Synapse option" where
  "ThresholdGate_process g uuid inputs =
     (case inputs of
        [] \<Rightarrow> None
      | None # _ \<Rightarrow> None
      | Some input # _ \<Rightarrow>
          if getStrength input \<ge> gate_threshold g then
            Some (stamp g ''THRESHOLD'' (setStrength (getStrength input) (derive uuid (-1) input)))
          else None)"

definition ModulatorGate_process ::
  "platform \<Rightarrow> NeuronGate \<Rightarrow> string \<Rightarrow> Synapse option list \<Rightarrow> Synapse option" where
  "ModulatorGate_process P g uuid inputs =
     (case inputs of
        [] \<Rightarrow> None
      | None # _ \<Rightarrow> None
      | Some input # _ \<Rightarrow>
          (let result = setStrength (clamp01 (getStrength input * factor g)) (derive uuid (-1) input)
           in Some (addTag ''gate_processed''
                      (setData ''modulation_factor'' (to_string P (f32 (factor g)))
                         (setData ''gate_type'' ''MODULATOR'' (setData ''gate_id'' (gate_id g) result))))))"

definition CustomGate_process :: "NeuronGate \<Rightarrow> string \<Rightarrow> Synapse option list \<Rightarrow> Synapse option" where
  "CustomGate_process g uuid inputs =
     (case processor g uuid inputs of
        None \<Rightarrow> None
      | Some result \<Rightarrow> Some (stamp g ''CUSTOM'' result))"



definition gate_process ::
  "platform \<Rightarrow> NeuronGate \<Rightarrow> string \<Rightarrow> Synapse option list \<Rightarrow> Synapse option" where
  \<comment> \<open>the virtual call \<^verbatim>\<open>gate->process(inputs)\<close>\<close>
  "gate_process P g uuid inputs =
     (case gate_type g of
        AND \<Rightarrow> AndGate_process g uuid inputs
      | OR \<Rightarrow> OrGate_process g uuid inputs
      | NOT \<Rightarrow> NotGate_process g uuid inputs
      | XOR \<Rightarrow> XorGate_process g uuid inputs
      | THRESHOLD \<Rightarrow> ThresholdGate_process g uuid inputs
      | MODULATOR \<Rightarrow> ModulatorGate_process P g uuid inputs
      | CUSTOM \<Rightarrow> CustomGate_process g uuid inputs)"

section \<open>Neurons (class Neuron)\<close>

text \<open>
  Neurons are shared, mutable objects that point at each other, so they live in a store:
  an address stands for a shared pointer to a neuron, and a weak pointer is an address
  whose lock succeeds while the store holds a neuron there. The map of outgoing
  connections is a \<^verbatim>\<open>std::map\<close> keyed by pointer; it is kept as the list of its entries
  in key order, which is the order its iteration visits. Listeners are client code: the
  store records each invocation in a trace, in the order the calls are made.
\<close>

type_synonym addr = nat

datatype NeuronType = SENSORY | PROCESSING | MEMORY | INTEGRATION | ASSOCIATION | OUTPUT | REGULATORY

datatype NeuronState = RESTING | ACTIVE | REFRACTORY | INHIBITED

record Neuron =
  nid :: string
  ntype :: NeuronType
  state :: NeuronState
  threshold :: real
  potential :: float
  refractoryPeriod :: bool
  inputSignals :: "Synapse list"
  outputSignals :: "Synapse list"
  connections :: "(addr \<times> real) list"
  inputs :: "addr list"
  tags :: "string list"
  metadata :: "string \<rightharpoonup> string"
  gates :: "NeuronGate list"
  fireCallbacks :: "nat list"
  stateChangeCallbacks :: "nat list"

datatype event =
    FireCallback nat addr
  | StateChangeCallback nat addr NeuronState NeuronState
  | ProcessCallback nat

record World =
  heap :: "addr \<rightharpoonup> Neuron"
  uuid_next :: nat
  trace :: "event list"

definition generateUUID :: "nat \<Rightarrow> string" where
  \<comment> \<open>\<^verbatim>\<open>Utils::generateUUID\<close> draws random digits; the \<open>k\<close>-th draw of a run is given a name\<close>
  "generateUUID k = ''uuid-'' @ dec_digits k"

fun conn_set :: "addr \<Rightarrow> real \<Rightarrow> (addr \<times> real) list \<Rightarrow> (addr \<times> real) list" where
  \<comment> \<open>\<^verbatim>\<open>connections[target] = weight\<close>\<close>
  "conn_set k v [] = [(k, v)]"
| "conn_set k v ((k', v') # xs) =
     (if k = k' then (k, v) # xs
      else if k < k' then (k, v) # (k', v') # xs
      else (k', v') # conn_set k v xs)"

definition conn_find :: "addr \<Rightarrow> (addr \<times> real) list \<Rightarrow> real option" where
  \<comment> \<open>\<^verbatim>\<open>connections.find(target)\<close>; None is \<^verbatim>\<open>end()\<close>\<close>
  "conn_find k xs = map_of xs k"

definition conn_erase :: "addr \<Rightarrow> (addr \<times> real) list \<Rightarrow> (addr \<times> real) list" where
  "conn_erase k xs = filter (\<lambda>p. fst p \<noteq> k) xs"

definition type_threshold :: "NeuronType \<Rightarrow> real" where
  "type_threshold ty =
     (case ty of SENSORY \<Rightarrow> 0.3 | MEMORY \<Rightarrow> 0.7 | REGULATORY \<Rightarrow> 0.4 | _ \<Rightarrow> 0.5)"

definition type_tag :: "NeuronType \<Rightarrow> string" where
  "type_tag ty =
     (case ty of SENSORY \<Rightarrow> ''sensory'' | PROCESSING \<Rightarrow> ''processing'' | MEMORY \<Rightarrow> ''memory''
      | INTEGRATION \<Rightarrow> ''integration'' | ASSOCIATION \<Rightarrow> ''association'' | OUTPUT \<Rightarrow> ''output''
      | REGULATORY \<Rightarrow> ''regulatory'')"

definition Neuron_new :: "string \<Rightarrow> NeuronType \<Rightarrow> Neuron" where
  "Neuron_new i ty =
     \<lparr> nid = i, ntype = ty, state = RESTING, threshold = type_threshold ty, potential = 0,
       refractoryPeriod = False, inputSignals = [], outputSignals = [], connections = [],
       inputs = [], tags = [type_tag ty], metadata = Map.empty, gates = [],
       fireCallbacks = [], stateChangeCallbacks = [] \<rparr>"

definition Neuron_setThreshold :: "real \<Rightarrow> Neuron \<Rightarrow> Neuron" where
  "Neuron_setThreshold t n =
     (let t1 = (if t < 0 then 0 else t); t2 = (if t1 > 1 then 1 else t1) in n\<lparr>threshold := t2\<rparr>)"

definition onFire :: "nat \<Rightarrow> Neuron \<Rightarrow> Neuron" where
  "onFire k n = n\<lparr>fireCallbacks := fireCallbacks n @ [k]\<rparr>"

definition onStateChange :: "nat \<Rightarrow> Neuron \<Rightarrow> Neuron" where
  "onStateChange k n = n\<lparr>stateChangeCallbacks := stateChangeCallbacks n @ [k]\<rparr>"

definition put :: "addr \<Rightarrow> Neuron \<Rightarrow> World \<Rightarrow> World" where
  \<comment> \<open>a write through the pointer \<open>a\<close>\<close>
  "put a n w = w\<lparr>heap := (heap w)(a \<mapsto> n)\<rparr>"

text \<open>
  A method called through an address that holds no neuron has no counterpart in the
  program, where a shared pointer keeps its neuron alive; such a call, like a call that
  exhausts its recursion budget, has the result \<open>None\<close>.
\<close>

definition setState :: "addr \<Rightarrow> NeuronState \<Rightarrow> World \<Rightarrow> World option" where
  "setState a st w =
     (case heap w a of
        None \<Rightarrow> None
      | Some n \<Rightarrow>
          Some ((put a (n\<lparr>state := st\<rparr>) w)
                 \<lparr>trace := trace w @ map (\<lambda>k. StateChangeCallback k a (state n) st)
                                        (stateChangeCallbacks n)\<rparr>))"

definition connectTo :: "addr \<Rightarrow> addr option \<Rightarrow> real \<Rightarrow> World \<Rightarrow> (bool \<times> World) option" where
  "connectTo a target weight w =
     (case heap w a of
        None \<Rightarrow> None
      | Some n \<Rightarrow>
          (case target of
             None \<Rightarrow> Some (False, w)
           | Some t \<Rightarrow>
               if t = a then Some (False, w)
               else if conn_find t (connections n) \<noteq> None then
                 Some (True, put a (n\<lparr>connections := conn_set t weight (connections n)\<rparr>) w)
               else
                 (case heap w t of
                    None \<Rightarrow> None
                  | Some tn \<Rightarrow>
                      Some (True,
                        put t (tn\<lparr>inputs := inputs tn @ [a]\<rparr>)
                          (put a (n\<lparr>connections := conn_set t weight (connections n)\<rparr>) w)))))"

definition disconnectFrom :: "addr \<Rightarrow> addr option \<Rightarrow> World \<Rightarrow> (bool \<times> World) option" where
  "disconnectFrom a target w =
     (case heap w a of
        None \<Rightarrow> None
      | Some n \<Rightarrow>
          (case target of
             None \<Rightarrow> Some (False, w)
           | Some t \<Rightarrow>
               if conn_find t (connections n) = None then Some (False, w)
               else
                 (let w1 = put a (n\<lparr>connections := conn_erase t (connections n)\<rparr>) w
                  in case heap w1 t of
                       None \<Rightarrow> None
                     | Some tn \<Rightarrow>
                         Some (True,
                           put t (tn\<lparr>inputs := filter (\<lambda>p. \<not> (heap w1 p = None \<or> p = a))
                                                       (inputs tn)\<rparr>) w1))))"

definition getInputs :: "addr \<Rightarrow> World \<Rightarrow> addr list" where
  "getInputs a w = (case heap w a of None \<Rightarrow> [] | Some n \<Rightarrow> filter (\<lambda>p. heap w p \<noteq> None) (inputs n))"

definition getOutputs :: "addr \<Rightarrow> World \<Rightarrow> addr list" where
  "getOutputs a w = (case heap w a of None \<Rightarrow> [] | Some n \<Rightarrow> map fst (connections n))"

definition getConnectionWeight :: "addr \<Rightarrow> addr \<Rightarrow> World \<Rightarrow> real" where
  "getConnectionWeight a target w =
     (case heap w a of
        None \<Rightarrow> 0
      | Some n \<Rightarrow> (case conn_find target (connections n) of Some x \<Rightarrow> x | None \<Rightarrow> 0))"

definition signal_strength :: "platform \<Rightarrow> Synapse \<Rightarrow> float" where
  \<comment> \<open>the block "Get signal strength" of \<^verbatim>\<open>processSignals\<close> and \<^verbatim>\<open>fire\<close>: the payload
      entry \<^verbatim>\<open>"strength"\<close> read by \<^verbatim>\<open>std::stof\<close>, \<^verbatim>\<open>0.5f\<close> when the entry is missing or
      \<^verbatim>\<open>std::stof\<close> throws\<close>
  "signal_strength P s =
     (if hasData ''strength'' s then
        (case stof P (getData ''strength'' s) of None \<Rightarrow> f32 0.5 | Some v \<Rightarrow> v)
      else f32 0.5)"

fun try_gates :: "platform \<Rightarrow> NeuronGate list \<Rightarrow> string \<Rightarrow> Synapse \<Rightarrow> Synapse option" where
  \<comment> \<open>the inner loop "Find a gate that can handle this signal"\<close>
  "try_gates P [] uuid s = None"
| "try_gates P (g # gs) uuid s =
     (if active g then
        (case gate_process P g uuid [Some s] of
           Some r \<Rightarrow> Some r
         | None \<Rightarrow> try_gates P gs uuid s)
      else try_gates P gs uuid s)"

fun run_gates :: "platform \<Rightarrow> NeuronGate list \<Rightarrow> Synapse list \<Rightarrow> nat \<Rightarrow> Synapse list \<times> nat" where
  \<comment> \<open>the loop over \<^verbatim>\<open>inputSignals\<close> that fills \<^verbatim>\<open>processed\<close>; the number counts UUID draws\<close>
  "run_gates P gs [] k = ([], k)"
| "run_gates P gs (s # ss) k =
     (case try_gates P gs (generateUUID k) s of
        Some r \<Rightarrow> (let (ps, k') = run_gates P gs ss (Suc k) in (r # ps, k'))
      | None \<Rightarrow> (let (ps, k') = run_gates P gs ss k in (s # ps, k')))"

fun fold_opt :: "('a \<Rightarrow> 's \<Rightarrow> 's option) \<Rightarrow> 'a list \<Rightarrow> 's \<Rightarrow> 's option" where
  \<comment> \<open>a \<^verbatim>\<open>for\<close> loop whose body may fail to return\<close>
  "fold_opt f [] s = Some s"
| "fold_opt f (x # xs) s = (case f x s of None \<Rightarrow> None | Some s' \<Rightarrow> fold_opt f xs s')"

definition default_signal :: "platform \<Rightarrow> Neuron \<Rightarrow> Synapse" where
  \<comment> \<open>"Create a default output signal if none exists"\<close>
  "default_signal P n =
     setData ''strength'' (to_string P (potential n))
       (setData ''source'' (nid n) (Synapse_new (nid n @ ''_output'') EXCITATORY 1))"

definition weighted_copy :: "platform \<Rightarrow> string \<Rightarrow> string \<Rightarrow> real \<Rightarrow> string \<Rightarrow> Synapse \<Rightarrow> Synapse" where
  \<comment> \<open>the body of the delivery loop of \<^verbatim>\<open>fire\<close>, up to the call of \<^verbatim>\<open>receiveSignal\<close>\<close>
  "weighted_copy P src tgt weight uuid signal =
     (let weighted = derive uuid (-1) signal;
          strength = f_mul P (signal_strength P signal) (f32 weight)
      in setData ''to'' tgt (setData ''from'' src (setData ''strength'' (to_string P strength) weighted)))"

definition deliver ::
  "platform \<Rightarrow> (addr \<Rightarrow> Synapse option \<Rightarrow> World \<Rightarrow> World option) \<Rightarrow> string \<Rightarrow> addr \<Rightarrow> real \<Rightarrow>
     Synapse \<Rightarrow> World \<Rightarrow> World option" where
  "deliver P recv src target weight signal w =
     (case heap w target of
        None \<Rightarrow> None
      | Some tn \<Rightarrow>
          recv target (Some (weighted_copy P src (nid tn) weight (generateUUID (uuid_next w)) signal))
            (w\<lparr>uuid_next := Suc (uuid_next w)\<rparr>))"

definition intact :: "addr \<Rightarrow> Synapse list \<Rightarrow> World \<Rightarrow> World option" where
  \<comment> \<open>the vector \<^verbatim>\<open>outputSignals\<close> of the neuron at \<open>a\<close> is still the one a loop runs over\<close>
  "intact a signals w =
     (case heap w a of
        None \<Rightarrow> None
      | Some n \<Rightarrow> if outputSignals n = signals then Some w else None)"

text \<open>
  \<^verbatim>\<open>fire\<close>, \<^verbatim>\<open>processSignals\<close> and \<^verbatim>\<open>receiveSignal\<close> call each other. The first two are
  written over the function \<open>recv\<close> they call for a delivery; \<open>receiveSignal\<close> closes the
  recursion. Its first argument bounds the depth of nested deliveries: the source has no
  cycle guard, and a cascade that never ends has the result \<open>None\<close> for every bound.

  The inner loop of \<^verbatim>\<open>fire\<close> iterates over the vector \<^verbatim>\<open>outputSignals\<close> of the firing
  neuron itself. A delivery that comes back to the firing neuron and is processed there
  appends to that vector while the loop is running, which invalidates the iterators of the
  loop: from then on the behaviour of the program is undefined. \<open>intact\<close> checks the
  vector after every delivery, and \<^verbatim>\<open>fire\<close> has the result \<open>None\<close> when it has changed. So
  \<open>None\<close> is the result of a call that the program does not complete with a defined
  outcome, and \<open>Some\<close> holds the store a completed call leaves.
\<close>

definition Neuron_fire_with ::
  "platform \<Rightarrow> (addr \<Rightarrow> Synapse option \<Rightarrow> World \<Rightarrow> World option) \<Rightarrow> addr \<Rightarrow> World \<Rightarrow> World option" where
  "Neuron_fire_with P recv a w =
     (case heap w a of
        None \<Rightarrow> None
      | Some n0 \<Rightarrow>
          (let n = (if outputSignals n0 = [] then n0\<lparr>outputSignals := [default_signal P n0]\<rparr> else n0);
               w1 = put a n w
           in case fold_opt (\<lambda>(target, weight).
                               fold_opt (\<lambda>signal w'.
                                           Option.bind (deliver P recv (nid n) target weight signal w')
                                             (intact a (outputSignals n)))
                                 (outputSignals n))
                     (connections n) w1 of
                None \<Rightarrow> None
              | Some w2 \<Rightarrow>
                  (case heap w2 a of
                     None \<Rightarrow> None
                   | Some n2 \<Rightarrow>
                       Some (w2\<lparr>trace := trace w2 @ map (\<lambda>k. FireCallback k a) (fireCallbacks n2)\<rparr>))))"

definition integrate_potential :: "platform \<Rightarrow> float \<Rightarrow> Synapse list \<Rightarrow> float" where
  \<comment> \<open>"Calculate contribution to potential", "Update potential", "Ensure potential is within bounds"\<close>
  "integrate_potential P p processed =
     (let potentialDelta = foldl (\<lambda>acc s. f_add P acc (signal_strength P s)) 0 processed;
          p1 = f_add P p (f_div P potentialDelta
                            (if length processed > 0 then f_of_size P (length processed) else 1));
          p2 = (if f_less P p1 0 then 0 else p1)
      in if f_greater P p2 1 then 1 else p2)"

definition store_outputs :: "addr \<Rightarrow> Synapse list \<Rightarrow> World \<Rightarrow> World option" where
  \<comment> \<open>"Store processed signals for output or memory"\<close>
  "store_outputs a processed w =
     (case heap w a of
        None \<Rightarrow> None
      | Some n \<Rightarrow> Some (put a (n\<lparr>outputSignals := outputSignals n @ processed\<rparr>) w))"

definition reset_potential :: "addr \<Rightarrow> World \<Rightarrow> World option" where
  \<comment> \<open>\<^verbatim>\<open>potential = 0.0f\<close>\<close>
  "reset_potential a w =
     (case heap w a of None \<Rightarrow> None | Some n \<Rightarrow> Some (put a (n\<lparr>potential := 0\<rparr>) w))"

definition Neuron_processSignals_with ::
  "platform \<Rightarrow> (addr \<Rightarrow> Synapse option \<Rightarrow> World \<Rightarrow> World option) \<Rightarrow> addr \<Rightarrow> World \<Rightarrow> World option" where
  "Neuron_processSignals_with P recv a w =
     (case heap w a of
        None \<Rightarrow> None
      | Some n \<Rightarrow>
          if state n = REFRACTORY \<or> state n = INHIBITED then Some w
          else if inputSignals n = [] then Some w
          else
            (let (processed, k) = run_gates P (gates n) (inputSignals n) (uuid_next w);
                 p = integrate_potential P (potential n) processed;
                 w1 = (put a (n\<lparr>inputSignals := [], potential := p\<rparr>) w)\<lparr>uuid_next := k\<rparr>
             in if f_ge P p (f32 (threshold n)) then
                  Option.bind (Neuron_fire_with P recv a w1) (\<lambda>w2.
                  Option.bind (setState a REFRACTORY w2) (\<lambda>w3.
                  Option.bind (reset_potential a w3) (\<lambda>w4.
                  Option.bind (setState a RESTING w4) (\<lambda>w5.
                  store_outputs a processed w5))))
                else store_outputs a processed w1))"

primrec receiveSignal :: "platform \<Rightarrow> nat \<Rightarrow> addr \<Rightarrow> Synapse option \<Rightarrow> World \<Rightarrow> World option" where
  "receiveSignal P 0 a signal w = None"
| "receiveSignal P (Suc fuel) a signal w =
     (case signal of
        None \<Rightarrow> (case heap w a of None \<Rightarrow> None | Some n \<Rightarrow> Some w)
      | Some s \<Rightarrow>
          (case heap w a of
             None \<Rightarrow> None
           | Some n \<Rightarrow>
               Neuron_processSignals_with P (receiveSignal P fuel) a
                 (put a (n\<lparr>inputSignals := inputSignals n @ [s]\<rparr>) w)))"

definition Neuron_processSignals :: "platform \<Rightarrow> nat \<Rightarrow> addr \<Rightarrow> World \<Rightarrow> World option" where
  "Neuron_processSignals P fuel = Neuron_processSignals_with P (receiveSignal P fuel)"

definition Neuron_fire :: "platform \<Rightarrow> nat \<Rightarrow> addr \<Rightarrow> World \<Rightarrow> World option" where
  "Neuron_fire P fuel = Neuron_fire_with P (receiveSignal P fuel)"

definition Neuron_reset :: "addr \<Rightarrow> World \<Rightarrow> World option" where
  "Neuron_reset a w =
     Option.bind (reset_potential a w) (\<lambda>w1.
     Option.bind (setState a RESTING w1) (\<lambda>w2.
       case heap w2 a of
         None \<Rightarrow> None
       | Some n \<Rightarrow> Some (put a (n\<lparr>inputSignals := [], outputSignals := []\<rparr>) w2)))"

section \<open>Networks (class Network)\<close>

text \<open>
  The registry is a hash map from identifier to neuron; it is kept as the list of its
  entries in the order its iteration visits them. A process callback receives the network
  and may call any of its public operations, so it is a function on the network and the
  store; the table \<open>cb\<close> gives the function behind each registered handle.
\<close>

record Network =
  net_id :: string
  neurons :: "(string \<times> addr) list"
  inputNeurons :: "addr list"
  outputNeurons :: "addr list"
  processing :: bool
  processCallbacks :: "nat list"

definition Network_new :: "string \<Rightarrow> Network" where
  "Network_new i =
     \<lparr> net_id = i, neurons = [], inputNeurons = [], outputNeurons = [], processing = False,
       processCallbacks = [] \<rparr>"

definition getNeuron :: "string \<Rightarrow> Network \<Rightarrow> addr option" where
  "getNeuron i net = map_of (neurons net) i"

definition getAllNeurons :: "Network \<Rightarrow> addr list" where
  "getAllNeurons net = map snd (neurons net)"

definition removeNeuron :: "string \<Rightarrow> Network \<times> World \<Rightarrow> (bool \<times> Network \<times> World) option" where
  "removeNeuron i = (\<lambda>(net, w).
     case map_of (neurons net) i of
       None \<Rightarrow> Some (False, net, w)
     | Some neuron \<Rightarrow>
         Option.bind (fold_opt (\<lambda>output w'. map_option snd (disconnectFrom neuron (Some output) w'))
                        (getOutputs neuron w) w) (\<lambda>w1.
         Option.bind (fold_opt (\<lambda>input w'. map_option snd (disconnectFrom input (Some neuron) w'))
                        (getInputs neuron w1) w1) (\<lambda>w2.
           Some (True,
                 net\<lparr>inputNeurons := removeAll neuron (inputNeurons net),
                     outputNeurons := removeAll neuron (outputNeurons net),
                     neurons := filter (\<lambda>e. fst e \<noteq> i) (neurons net)\<rparr>,
                 w2))))"

definition run_callback ::
  "(nat \<Rightarrow> Network \<times> World \<Rightarrow> (Network \<times> World) option) \<Rightarrow> nat \<Rightarrow> Network \<times> World \<Rightarrow>
     (Network \<times> World) option" where
  "run_callback cb k = (\<lambda>(net, w). cb k (net, w\<lparr>trace := trace w @ [ProcessCallback k]\<rparr>))"

definition Network_processSignals ::
  "platform \<Rightarrow> nat \<Rightarrow> (nat \<Rightarrow> Network \<times> World \<Rightarrow> (Network \<times> World) option) \<Rightarrow>
     Network \<times> World \<Rightarrow> (Network \<times> World) option" where
  "Network_processSignals P fuel cb = (\<lambda>(net0, w).
     if processing net0 then Some (net0, w)
     else
       (let net = net0\<lparr>processing := True\<rparr>;
            allNeurons = getAllNeurons net
        in Option.bind (fold_opt (Neuron_processSignals P fuel) (inputNeurons net) w) (\<lambda>w1.
           Option.bind (fold_opt (\<lambda>neuron w'.
                           if neuron \<in> set (inputNeurons net) \<or> neuron \<in> set (outputNeurons net)
                           then Some w' else Neuron_processSignals P fuel neuron w')
                         allNeurons w1) (\<lambda>w2.
           Option.bind (fold_opt (Neuron_processSignals P fuel) (outputNeurons net) w2) (\<lambda>w3.
           Option.bind (fold_opt (run_callback cb) (processCallbacks net) (net, w3)) (\<lambda>(net4, w4).
             Some (net4\<lparr>processing := False\<rparr>, w4)))))))"

definition Network_reset :: "Network \<times> World \<Rightarrow> (Network \<times> World) option" where
  "Network_reset = (\<lambda>(net, w).
     map_option (\<lambda>w'. (net, w'))
       (fold_opt (\<lambda>e. setState (snd e) RESTING) (neurons net) w))"

section \<open>Edge bookkeeping\<close>

text \<open>
  The bookkeeping of edges. \<open>connectTo\<close> and \<open>disconnectFrom\<close> record an edge on both of
  its ends: in the connection map of the source and in the back-references of the target.
  \<open>edges\<close> are the pairs recorded in connection maps, \<open>backrefs\<close> the pairs recorded in
  back-reference lists whose weak pointer can still be locked. A store is consistent when
  the two agree and every edge leads to a neuron of the store; \<open>connectTo\<close> and
  \<open>disconnectFrom\<close> keep it so.
\<close>

definition edges :: "World \<Rightarrow> (addr \<times> addr) set" where
  "edges w = {(a, t). \<exists>na. heap w a = Some na \<and> t \<in> set (map fst (connections na))}"

definition backrefs :: "World \<Rightarrow> (addr \<times> addr) set" where
  "backrefs w = {(p, b). \<exists>nb. heap w b = Some nb \<and> p \<in> set (inputs nb) \<and> heap w p \<noteq> None}"

definition edges_consistent :: "World \<Rightarrow> bool" where
  "edges_consistent w = (edges w = backrefs w \<and> (\<forall>e \<in> edges w. heap w (snd e) \<noteq> None))"

section \<open>Views of neurons and signals\<close>

text \<open>
  What a caller can see of a neuron after a call: its state, its potential and the
  listener invocations made so far.
\<close>

definition observe :: "addr \<Rightarrow> World option \<Rightarrow> (NeuronState \<times> float \<times> event list) option" where
  "observe a r =
     (case r of
        None \<Rightarrow> None
      | Some w \<Rightarrow> (case heap w a of None \<Rightarrow> None | Some n \<Rightarrow> Some (state n, potential n, trace w)))"

text \<open>
  Views of signals for stating what a neuron holds: the strength field of a signal and
  its payload entries \<open>"strength"\<close>, \<open>"from"\<close> and \<open>"to"\<close>; \<open>buffered\<close> lists them for
  the pending and the stored signals of a neuron, and \<open>copy_view\<close> is the view of the
  weighted copy that \<open>fire\<close> makes of a signal for an edge. A \<open>blocked\<close> neuron buffers
  what it receives without processing it.
\<close>

definition signal_view :: "Synapse \<Rightarrow> real \<times> string option \<times> string option \<times> string option" where
  "signal_view s =
     (getStrength s, stringPayload s ''strength'', stringPayload s ''from'', stringPayload s ''to'')"

definition copy_view :: "platform \<Rightarrow> string \<Rightarrow> string \<Rightarrow> real \<Rightarrow> Synapse \<Rightarrow>
    real \<times> string option \<times> string option \<times> string option" where
  "copy_view P src tgt weight signal =
     (clamp01 (getStrength signal),
      Some (to_string P (f_mul P (signal_strength P signal) (f32 weight))), Some src, Some tgt)"

definition buffered :: "addr \<Rightarrow> World option \<Rightarrow>
    (real \<times> string option \<times> string option \<times> string option) list option" where
  "buffered a r =
     (case r of
        None \<Rightarrow> None
      | Some w \<Rightarrow>
          (case heap w a of
             None \<Rightarrow> None
           | Some n \<Rightarrow>
               Some (map (\<lambda>s. (getStrength s, stringPayload s ''strength'', stringPayload s ''from'',
                                  stringPayload s ''to''))
                       (inputSignals n @ outputSignals n))))"

definition blocked :: "Neuron \<Rightarrow> bool" where
  "blocked n = (state n = REFRACTORY \<or> state n = INHIBITED)"

text \<open>
  The neuron whose listener an entry of the trace reports, and what a completed call may
  have done to the neuron at an address \<open>x\<close>: a neuron is never removed, its vector of
  output signals only grows and the trace only grows; as long as the vector has not
  grown, the neuron has at most buffered signals (and nothing at all unless it is
  blocked), and none of its listeners has been invoked.
\<close>

fun event_neuron :: "event \<Rightarrow> addr option" where
  "event_neuron (FireCallback k a) = Some a"
| "event_neuron (StateChangeCallback k a old new) = Some a"
| "event_neuron (ProcessCallback k) = None"

definition frame :: "addr \<Rightarrow> World \<Rightarrow> World \<Rightarrow> bool" where
  "frame x w w' =
     (\<exists>ext. trace w' = trace w @ ext \<and>
        (case heap w x of
           None \<Rightarrow> heap w' x = None
         | Some nx \<Rightarrow>
             (\<exists>nx' sfx. heap w' x = Some nx' \<and> outputSignals nx' = outputSignals nx @ sfx \<and>
                (sfx = [] \<longrightarrow> (\<exists>buf. nx' = nx\<lparr>inputSignals := buf\<rparr>) \<and> (\<not> blocked nx \<longrightarrow> nx' = nx)
                   \<and> (\<forall>ev \<in> set ext. event_neuron ev \<noteq> Some x)))))"

section \<open>Example configurations\<close>

text \<open>
  Small stores and networks on which the properties below are evaluated. Addresses 0, 1
  and 2 hold the neurons \<open>A\<close>, \<open>B\<close> and \<open>C\<close>.
\<close>

definition two_neurons :: World where
  "two_neurons =
     \<lparr> heap = [0 \<mapsto> Neuron_new ''A'' PROCESSING, 1 \<mapsto> Neuron_new ''B'' PROCESSING],
       uuid_next = 0, trace = [] \<rparr>"

definition connected_pair :: "real \<Rightarrow> World" where
  "connected_pair weight = (case connectTo 0 (Some 1) weight two_neurons of Some (_, w) \<Rightarrow> w | None \<Rightarrow> two_neurons)"

definition triangle :: World where
  "triangle =
     \<lparr> heap = [0 \<mapsto> (Neuron_new ''A'' SENSORY)\<lparr>connections := [(1, 0.5)]\<rparr>,
               1 \<mapsto> (Neuron_new ''B'' PROCESSING)\<lparr>connections := [(2, 0.5)], inputs := [0, 2]\<rparr>,
               2 \<mapsto> (Neuron_new ''C'' OUTPUT)\<lparr>connections := [(1, 0.5)], inputs := [1]\<rparr>],
       uuid_next = 0, trace = [] \<rparr>"

definition triangle_net :: Network where
  "triangle_net =
     (Network_new ''net'')\<lparr>neurons := [(''A'', 0), (''B'', 1), (''C'', 2)],
                           inputNeurons := [1], outputNeurons := [2]\<rparr>"

definition idle_network :: Network where
  "idle_network = (Network_new ''net'')\<lparr>neurons := [(''A'', 0), (''B'', 1)], processCallbacks := [0]\<rparr>"

definition busy_neurons :: World where
  "busy_neurons =
     \<lparr> heap = [0 \<mapsto> (Neuron_new ''A'' PROCESSING)\<lparr>state := INHIBITED, potential := f32 0.3, connections := [(1, 0.7)]\<rparr>,
               1 \<mapsto> (Neuron_new ''B'' PROCESSING)\<lparr>state := ACTIVE, inputs := [0],
                      inputSignals := [Synapse_new ''s'' EXCITATORY 1]\<rparr>],
       uuid_next = 0, trace = [] \<rparr>"

definition reentrant_cb :: "nat \<Rightarrow> Network \<times> World \<Rightarrow> (Network \<times> World) option" where
  "reentrant_cb k = Network_processSignals ieee_glibc 1 (\<lambda>j. Some)"


definition relay :: "real \<Rightarrow> World" where
  "relay weight =
     \<lparr> heap = [0 \<mapsto> (onFire 0 (Neuron_new ''A'' PROCESSING))\<lparr>connections := [(1, weight)]\<rparr>,
               1 \<mapsto> (Neuron_setThreshold 0.5 (onFire 1 (Neuron_new ''B'' PROCESSING)))\<lparr>inputs := [0]\<rparr>],
       uuid_next = 0, trace = [] \<rparr>"

definition parked :: World where
  "parked =
     \<lparr> heap = [0 \<mapsto> (onFire 0 (Neuron_new ''A'' PROCESSING))\<lparr>connections := [(1, 0.9)], potential := f32 0.9\<rparr>,
               1 \<mapsto> (Neuron_new ''B'' PROCESSING)\<lparr>inputs := [0], state := INHIBITED\<rparr>],
       uuid_next = 0, trace = [] \<rparr>"

definition overdrive :: World where
  "overdrive =
     \<lparr> heap = [0 \<mapsto> (Neuron_new ''A'' PROCESSING)
                      \<lparr>connections := [(1, 2)],
                       outputSignals := [setData ''strength'' ''0.9'' (Synapse_new ''out'' EXCITATORY 0.5)]\<rparr>,
               1 \<mapsto> (Neuron_new ''B'' PROCESSING)\<lparr>inputs := [0], state := INHIBITED\<rparr>],
       uuid_next = 0, trace = [] \<rparr>"

definition feedback :: World where
  "feedback =
     \<lparr> heap = [0 \<mapsto> (Neuron_new ''A'' PROCESSING)\<lparr>connections := [(1, 1)], inputs := [1]\<rparr>,
               1 \<mapsto> (Neuron_new ''B'' PROCESSING)\<lparr>connections := [(0, -1)], inputs := [0]\<rparr>],
       uuid_next = 0, trace = [] \<rparr>"

section \<open>Evaluation rules\<close>

lemma dec_digits_small: "n < 10 \<Longrightarrow> dec_digits n = [digit_char n]"
  by (simp add: dec_digits.simps)

lemma dec_digits_large:
  "\<not> n < 10 \<Longrightarrow> dec_digits n = dec_digits (n div 10) @ [digit_char (n mod 10)]"
  by (subst dec_digits.simps) simp

lemma halvings_stop: "m < 2 \<Longrightarrow> halvings m = 0"
  by (simp add: halvings.simps)

lemma halvings_step: "\<not> m < 2 \<Longrightarrow> halvings m = Suc (halvings (m / 2))"
  by (subst halvings.simps) simp

lemma doublings_stop: "1 \<le> m \<or> k = 0 \<Longrightarrow> doublings k m = 0"
  by (subst doublings.simps) simp

lemma doublings_step: "\<not> (1 \<le> m \<or> k = 0) \<Longrightarrow> doublings k m = Suc (doublings (k - 1) (2 * m))"
  by (subst doublings.simps) simp

lemmas f32_eval =
  f32_def round_to_def round_mag_def binade_def pow2_def round_half_even_def signed_def
  halvings_stop halvings_step doublings_stop doublings_step zero_float_def one_float_def

lemmas to_string_eval =
  glibc_to_string_def dec_digits_small dec_digits_large pad6_def digit_char_def

lemmas stof_eval =
  glibc_stof_def take_sign_def is_space_def digit_val_def digits_nat_def take_exponent_def
  mantissa_def scaled_def number_value_def has_word_def letter_is_def

lemmas platform_eval =
  ieee_glibc_def ieee_greater_def ieee_of_size_def f32_eval to_string_eval stof_eval

section \<open>Signals: the strength stays in the unit interval\<close>


lemma strength_addTag [simp]: "strength (addTag t s) = strength s"
  by (simp add: addTag_def)

lemma strength_setData [simp]: "strength (setData k v s) = strength s"
  by (simp add: setData_def)

lemma strength_addTags [simp]: "strength (foldl (\<lambda>d t. addTag t d) d ts) = strength d"
  by (induction ts arbitrary: d) simp_all

lemma strength_combine_keys [simp]: "strength (combine_keys sfx kvs c) = strength c"
  unfolding combine_keys_def
  by (induction kvs arbitrary: c) (simp_all split: prod.splits)

lemma strength_derive:
  "strength (derive uuid d s) = clamp01 (if d \<ge> 0 then d else strength s)"
  by (simp add: derive_def Let_def setSourceId_def setTargetId_def Synapse_new_def)

lemma strength_stamp [simp]: "strength (stamp g k r) = strength r"
  by (simp add: stamp_def)

lemma strength_combine:
  "strength (combine uuid kvs1 kvs2 other s) =
     (case other of None \<Rightarrow> clamp01 (strength s)
      | Some o' \<Rightarrow> clamp01 ((strength s + strength o') / 2))"
  by (simp add: combine_def strength_derive Let_def setSourceId_def setTargetId_def
      Synapse_new_def getStrength_def split: option.splits)

text \<open>
  Claim C3. Whatever number \<open>v\<close> is passed, the constructor and \<open>setStrength\<close> store
  \<open>min 1 (max 0 v)\<close>, and that is what \<open>getStrength\<close> returns. The operations that create
  a signal from others (\<open>derive\<close>, \<open>combine\<close>) go through the constructor, so their result
  has a strength between 0 and 1 whatever their arguments are; the remaining mutators
  (\<open>setSourceId\<close>, \<open>setTargetId\<close>, \<open>setData\<close>, \<open>addTag\<close>) leave the strength as it is.
\<close>

theorem signal_strength_bounded:
  "getStrength (Synapse_new i ty v) = min 1 (max 0 v)
   \<and> getStrength (setStrength v s) = min 1 (max 0 v)
   \<and> 0 \<le> getStrength (Synapse_new i ty v) \<and> getStrength (Synapse_new i ty v) \<le> 1
   \<and> 0 \<le> getStrength (setStrength v s) \<and> getStrength (setStrength v s) \<le> 1
   \<and> 0 \<le> getStrength (derive uuid d s) \<and> getStrength (derive uuid d s) \<le> 1
   \<and> 0 \<le> getStrength (combine uuid kvs1 kvs2 other s)
   \<and> getStrength (combine uuid kvs1 kvs2 other s) \<le> 1
   \<and> getStrength (setSourceId x s) = getStrength s
   \<and> getStrength (setTargetId x s) = getStrength s
   \<and> getStrength (setData k x s) = getStrength s
   \<and> getStrength (addTag x s) = getStrength s"
  by (simp add: getStrength_def strength_derive strength_combine Synapse_new_def setStrength_def
      setSourceId_def setTargetId_def clamp01_def split: option.splits)

section \<open>Gates\<close>










section \<open>Connections\<close>

lemma conn_find_set: "conn_find k' (conn_set k v xs) = (if k' = k then Some v else conn_find k' xs)"
  by (induction xs) (auto simp: conn_find_def)

lemma keys_conn_set: "set (map fst (conn_set k v xs)) = insert k (set (map fst xs))"
proof (induction xs)
  case Nil
  show ?case by simp
next
  case (Cons p xs)
  obtain k' v' where p: "p = (k', v')" by (cases p)
  have "map fst (conn_set k v (p # xs)) =
      (if k = k' then k # map fst xs else if k < k' then k # k' # map fst xs
       else k' # map fst (conn_set k v xs))"
    by (simp add: p)
  then show ?case using Cons.IH by (simp add: p insert_commute)
qed

lemma sorted_conn_set:
  "sorted_wrt (<) (map fst xs) \<Longrightarrow> sorted_wrt (<) (map fst (conn_set k v xs))"
proof (induction xs)
  case Nil
  then show ?case by simp
next
  case (Cons p xs)
  obtain k' v' where p: "p = (k', v')" by (cases p)
  show ?case
  proof (cases "k = k'")
    case True
    with Cons.prems p show ?thesis by simp
  next
    case False
    show ?thesis
    proof (cases "k < k'")
      case True
      with Cons.prems p False show ?thesis by auto
    next
      case ge: False
      have "\<forall>y \<in> set (map fst (conn_set k v xs)). k' < y"
        using Cons.prems p False ge unfolding keys_conn_set by auto
      with Cons p False ge show ?thesis by auto
    qed
  qed
qed

lemma sorted_keys_distinct: "sorted_wrt (<) (ks :: nat list) \<Longrightarrow> distinct ks"
  by (induction ks) auto

lemma distinct_once: "distinct ks \<Longrightarrow> k \<in> set ks \<Longrightarrow> length (filter (\<lambda>x. x = k) ks) = 1"
  by (induction ks) (auto simp: filter_empty_conv)

lemma sorted_keys_once:
  assumes "sorted_wrt (<) (map fst (xs :: (addr \<times> real) list))" "k \<in> set (map fst xs)"
  shows "length (filter (\<lambda>p. fst p = k) xs) = 1"
proof -
  have "length (filter (\<lambda>x. x = k) (map fst xs)) = 1"
    using assms(2) sorted_keys_distinct [OF assms(1)] by (intro distinct_once)
  then show ?thesis by (simp add: filter_map comp_def)
qed

lemma conn_find_keys: "(conn_find k xs = None) = (k \<notin> set (map fst xs))"
  by (simp add: conn_find_def map_of_eq_None_iff)

lemma keys_conn_erase: "set (map fst (conn_erase k xs)) = set (map fst xs) - {k}"
  by (auto simp: conn_erase_def)

text \<open>
  Claim C6. Two neurons \<open>A \<noteq> B\<close> of a store in which the edge \<open>A \<rightarrow> B\<close> is recorded on both
  sides or on neither, the connection map of \<open>A\<close> being a map (entries in key order, one
  per key) and the back-references of \<open>B\<close> free of duplicates: \<open>connectTo(A, B, u)\<close> followed
  by \<open>connectTo(A, B, v)\<close> succeeds twice and leaves exactly one entry for \<open>B\<close> in the map of
  \<open>A\<close>, with weight \<open>v\<close>, and exactly one back-reference to \<open>A\<close> in \<open>B\<close>. The claim is the
  case \<open>u = 0.7\<close>, \<open>v = 0.4\<close>.
\<close>

theorem connect_twice:
  assumes a: "heap w A = Some na" and b: "heap w B = Some nb" and ne: "A \<noteq> B"
    and srt: "sorted_wrt (<) (map fst (connections na))"
    and sym: "(B \<in> set (map fst (connections na))) = (A \<in> set (inputs nb))"
    and dist: "distinct (inputs nb)"
  shows "\<exists>w1 w2 na' nb'.
           connectTo A (Some B) u w = Some (True, w1)
         \<and> connectTo A (Some B) v w1 = Some (True, w2)
         \<and> heap w2 A = Some na' \<and> heap w2 B = Some nb'
         \<and> length (filter (\<lambda>p. fst p = B) (connections na')) = 1
         \<and> conn_find B (connections na') = Some v
         \<and> length (filter (\<lambda>p. p = A) (inputs nb')) = 1
         \<and> length (filter (\<lambda>p. p = B) (getOutputs A w2)) = 1
         \<and> length (filter (\<lambda>p. p = A) (getInputs B w2)) = 1
         \<and> getConnectionWeight A B w2 = v"
proof -
  let ?c1 = "conn_set B u (connections na)"
  let ?c2 = "conn_set B v ?c1"
  let ?na1 = "na\<lparr>connections := ?c1\<rparr>"
  let ?na2 = "na\<lparr>connections := ?c2\<rparr>"
  define nb1 where "nb1 = (if B \<in> set (map fst (connections na)) then nb else nb\<lparr>inputs := inputs nb @ [A]\<rparr>)"
  define w1 where "w1 = put B nb1 (put A ?na1 w)"
  define w2 where "w2 = put A ?na2 w1"
  have c1: "connectTo A (Some B) u w = Some (True, w1)"
  proof (cases "B \<in> set (map fst (connections na))")
    case True
    then have "put B nb (put A ?na1 w) = put A ?na1 w"
      using b ne by (simp add: put_def fun_upd_idem)
    with True show ?thesis
      using a b ne by (simp add: connectTo_def conn_find_keys w1_def nb1_def)
  next
    case False
    then show ?thesis
      using a b ne by (simp add: connectTo_def conn_find_keys w1_def nb1_def)
  qed
  have h1a: "heap w1 A = Some ?na1" and h1b: "heap w1 B = Some nb1"
    using ne by (simp_all add: w1_def put_def)
  have k1: "B \<in> set (map fst ?c1)" unfolding keys_conn_set by simp
  have c2: "connectTo A (Some B) v w1 = Some (True, w2)"
    using h1a ne k1 by (simp add: connectTo_def conn_find_keys w2_def del: set_map)
  have h2a: "heap w2 A = Some ?na2" and h2b: "heap w2 B = Some nb1"
    using ne h1b by (simp_all add: w2_def put_def)
  have s2: "sorted_wrt (<) (map fst ?c2)" using srt by (intro sorted_conn_set)
  have k2: "B \<in> set (map fst ?c2)" unfolding keys_conn_set by simp
  have once: "length (filter (\<lambda>p. fst p = B) ?c2) = 1"
    using s2 k2 by (rule sorted_keys_once)
  have f2: "conn_find B ?c2 = Some v" by (simp add: conn_find_set)
  have in1: "length (filter (\<lambda>p. p = A) (inputs nb1)) = 1"
  proof (cases "B \<in> set (map fst (connections na))")
    case True
    then have "A \<in> set (inputs nb)" using sym by simp
    with dist True show ?thesis by (simp add: nb1_def distinct_once)
  next
    case False
    then have "A \<notin> set (inputs nb)" using sym by simp
    then have "filter (\<lambda>p. p = A) (inputs nb) = []" by (auto simp: filter_empty_conv)
    with False show ?thesis by (simp add: nb1_def)
  qed
  have outs: "length (filter (\<lambda>p. p = B) (getOutputs A w2)) = 1"
    using once h2a by (simp add: getOutputs_def filter_map comp_def)
  have live: "filter (\<lambda>p. p = A) (filter (\<lambda>p. heap w2 p \<noteq> None) (inputs nb1)) = filter (\<lambda>p. p = A) (inputs nb1)"
    using h2a by (auto simp: filter_filter intro: filter_cong)
  have ins: "length (filter (\<lambda>p. p = A) (getInputs B w2)) = 1"
    using in1 h2b live by (simp add: getInputs_def)
  have wt: "getConnectionWeight A B w2 = v"
    using h2a f2 by (simp add: getConnectionWeight_def)
  have once': "length (filter (\<lambda>p. fst p = B) (connections ?na2)) = 1"
    using once by simp
  have f2': "conn_find B (connections ?na2) = Some v"
    using f2 by simp
  show ?thesis
    using c1 c2 h2a h2b once' f2' in1 outs ins wt by blast
qed

text \<open>Two fresh neurons, connected with weight 0.7 and then with weight 0.4.\<close>

theorem connect_twice_witness:
  "\<exists>w1 w2 na' nb'.
      connectTo 0 (Some 1) 0.7 two_neurons = Some (True, w1)
    \<and> connectTo 0 (Some 1) 0.4 w1 = Some (True, w2)
    \<and> heap w2 0 = Some na' \<and> heap w2 1 = Some nb'
    \<and> length (filter (\<lambda>p. fst p = 1) (connections na')) = 1
    \<and> conn_find 1 (connections na') = Some 0.4
    \<and> length (filter (\<lambda>p. p = 0) (inputs nb')) = 1
    \<and> length (filter (\<lambda>p. p = 1) (getOutputs 0 w2)) = 1
    \<and> length (filter (\<lambda>p. p = 0) (getInputs 1 w2)) = 1
    \<and> getConnectionWeight 0 1 w2 = 0.4"
  using connect_twice [of two_neurons 0 "Neuron_new ''A'' PROCESSING" 1 "Neuron_new ''B'' PROCESSING" "0.7" "0.4"]
  by (simp add: two_neurons_def Neuron_new_def)

lemma disconnect_absent:
  "heap w A = Some na \<Longrightarrow> conn_find B (connections na) = None \<Longrightarrow>
     disconnectFrom A (Some B) w = Some (False, w)"
  by (simp add: disconnectFrom_def)

text \<open>
  Claim C7. When \<open>B\<close> is among the outputs of \<open>A\<close>, one call \<open>disconnectFrom(A, B)\<close> returns
  true and removes \<open>B\<close> from the connections of \<open>A\<close> and \<open>A\<close> from the back-references of
  \<open>B\<close>; the same call made again returns false and leaves the store as it is.
\<close>

theorem disconnect_both_sides:
  assumes a: "heap w A = Some na" and b: "heap w B = Some nb"
    and con: "B \<in> set (getOutputs A w)"
  shows "\<exists>w1. disconnectFrom A (Some B) w = Some (True, w1)
           \<and> B \<notin> set (getOutputs A w1) \<and> A \<notin> set (getInputs B w1)
           \<and> (\<exists>na' nb'. heap w1 A = Some na' \<and> heap w1 B = Some nb'
                 \<and> conn_find B (connections na') = None \<and> A \<notin> set (inputs nb'))
           \<and> disconnectFrom A (Some B) w1 = Some (False, w1)"
proof -
  from con a have k: "conn_find B (connections na) \<noteq> None"
    by (simp add: getOutputs_def conn_find_keys)
  let ?w0 = "put A (na\<lparr>connections := conn_erase B (connections na)\<rparr>) w"
  obtain tn where tn: "heap ?w0 B = Some tn"
    using b by (cases "A = B") (simp_all add: put_def)
  define w1 where "w1 = put B (tn\<lparr>inputs := filter (\<lambda>p. \<not> (heap ?w0 p = None \<or> p = A)) (inputs tn)\<rparr>) ?w0"
  have d1: "disconnectFrom A (Some B) w = Some (True, w1)"
    using a k tn by (simp add: disconnectFrom_def Let_def w1_def)
  obtain na' where na': "heap w1 A = Some na'" and ka: "B \<notin> set (map fst (connections na'))"
  proof (cases "A = B")
    case True
    with tn have "tn = na\<lparr>connections := conn_erase B (connections na)\<rparr>" by (simp add: put_def)
    with True that show ?thesis
      by (simp add: w1_def put_def keys_conn_erase del: set_map)
  next
    case False
    with that show ?thesis
      by (simp add: w1_def put_def keys_conn_erase del: set_map)
  qed
  obtain nb' where nb': "heap w1 B = Some nb'" and ia: "A \<notin> set (inputs nb')"
    by (simp add: w1_def put_def)
  have d2: "disconnectFrom A (Some B) w1 = Some (False, w1)"
    using na' ka by (intro disconnect_absent) (simp_all add: conn_find_keys del: set_map)
  have o: "B \<notin> set (getOutputs A w1)" using na' ka by (simp add: getOutputs_def)
  have i: "A \<notin> set (getInputs B w1)" using nb' ia by (simp add: getInputs_def)
  have f: "conn_find B (connections na') = None" using ka by (simp add: conn_find_keys del: set_map)
  show ?thesis using d1 d2 o i na' nb' f ia by blast
qed

text \<open>The pair of neurons connected with weight 0.7, disconnected twice.\<close>

theorem disconnect_both_sides_witness:
  "\<exists>w1. disconnectFrom 0 (Some 1) (connected_pair 0.7) = Some (True, w1)
        \<and> 1 \<notin> set (getOutputs 0 w1) \<and> 0 \<notin> set (getInputs 1 w1)
        \<and> (\<exists>na' nb'. heap w1 0 = Some na' \<and> heap w1 1 = Some nb'
              \<and> conn_find 1 (connections na') = None \<and> 0 \<notin> set (inputs nb'))
        \<and> disconnectFrom 0 (Some 1) w1 = Some (False, w1)"
proof -
  have w: "connected_pair 0.7 = put 1 ((Neuron_new ''B'' PROCESSING)\<lparr>inputs := [0]\<rparr>)
      (put 0 ((Neuron_new ''A'' PROCESSING)\<lparr>connections := [(1, 0.7)]\<rparr>) two_neurons)"
    by (simp add: connected_pair_def connectTo_def two_neurons_def conn_find_def Neuron_new_def)
  have a: "heap (connected_pair 0.7) 0 = Some ((Neuron_new ''A'' PROCESSING)\<lparr>connections := [(1, 0.7)]\<rparr>)"
    by (simp add: w put_def)
  have b: "heap (connected_pair 0.7) 1 = Some ((Neuron_new ''B'' PROCESSING)\<lparr>inputs := [0]\<rparr>)"
    by (simp add: w put_def)
  have c: "1 \<in> set (getOutputs 0 (connected_pair 0.7))"
    by (simp add: getOutputs_def a)
  show ?thesis using disconnect_both_sides [OF a b c] .
qed

section \<open>Network::reset\<close>

lemma reset_loop:
  assumes "\<forall>e \<in> set es. heap w (snd e) \<noteq> None"
  shows "\<exists>w'. fold_opt (\<lambda>e. setState (snd e) RESTING) es w = Some w'
           \<and> (\<forall>a. heap w' a = (case heap w a of None \<Rightarrow> None
                  | Some n \<Rightarrow> Some (if a \<in> snd ` set es then n\<lparr>state := RESTING\<rparr> else n)))
           \<and> uuid_next w' = uuid_next w"
  using assms
proof (induction es arbitrary: w)
  case Nil
  then show ?case by (simp split: option.splits)
next
  case (Cons e es)
  then obtain n where n: "heap w (snd e) = Some n" by auto
  define w1 where "w1 = (put (snd e) (n\<lparr>state := RESTING\<rparr>) w)
      \<lparr>trace := trace w @ map (\<lambda>k. StateChangeCallback k (snd e) (state n) RESTING) (stateChangeCallbacks n)\<rparr>"
  have s: "setState (snd e) RESTING w = Some w1"
    using n by (simp add: setState_def w1_def)
  have h1: "heap w1 a = (if a = snd e then Some (n\<lparr>state := RESTING\<rparr>) else heap w a)" for a
    by (simp add: w1_def put_def)
  have "\<forall>e' \<in> set es. heap w1 (snd e') \<noteq> None"
    using Cons.prems by (simp add: h1)
  from Cons.IH [OF this] obtain w' where
    f: "fold_opt (\<lambda>e. setState (snd e) RESTING) es w1 = Some w'"
    and h: "\<forall>a. heap w' a = (case heap w1 a of None \<Rightarrow> None
                  | Some n \<Rightarrow> Some (if a \<in> snd ` set es then n\<lparr>state := RESTING\<rparr> else n))"
    and u: "uuid_next w' = uuid_next w1" by blast
  have "heap w' a = (case heap w a of None \<Rightarrow> None
                  | Some n \<Rightarrow> Some (if a \<in> snd ` set (e # es) then n\<lparr>state := RESTING\<rparr> else n))" for a
    using h n by (auto simp: h1 split: option.splits)
  moreover have "uuid_next w' = uuid_next w" using u by (simp add: w1_def put_def)
  ultimately show ?case using s f by simp
qed

text \<open>
  Claim C10. \<open>Network::reset\<close> on a network whose registered neurons are all in the store
  returns, leaves the network record as it is, and changes in each registered neuron the
  field \<open>state\<close> (to RESTING) and nothing else: potential, buffered input signals, stored
  output signals, gates and connection weights are those of before; every other neuron
  of the store is untouched. \<open>Neuron::reset\<close> on the other hand also sets the potential
  to 0 and empties both signal buffers. (The state-change listeners that \<open>setState\<close>
  invokes are recorded in the trace of the store.)
\<close>

theorem network_reset_frame:
  assumes "\<forall>e \<in> set (neurons net). heap w (snd e) \<noteq> None"
  shows "\<exists>w'. Network_reset (net, w) = Some (net, w')
           \<and> (\<forall>a n. heap w a = Some n \<longrightarrow>
                 heap w' a = Some (if a \<in> set (getAllNeurons net) then n\<lparr>state := RESTING\<rparr> else n))
           \<and> (\<forall>a. heap w a = None \<longrightarrow> heap w' a = None)
           \<and> (\<forall>a n. heap w a = Some n \<longrightarrow>
                 (\<exists>w''. Neuron_reset a w = Some w''
                     \<and> heap w'' a = Some (n\<lparr>potential := 0, state := RESTING, inputSignals := [],
                                             outputSignals := []\<rparr>)))"
proof -
  from reset_loop [OF assms] obtain w' where
    f: "fold_opt (\<lambda>e. setState (snd e) RESTING) (neurons net) w = Some w'"
    and h: "\<forall>a. heap w' a = (case heap w a of None \<Rightarrow> None
                  | Some n \<Rightarrow> Some (if a \<in> snd ` set (neurons net) then n\<lparr>state := RESTING\<rparr> else n))"
    by blast
  have 1: "Network_reset (net, w) = Some (net, w')"
    using f by (simp add: Network_reset_def)
  have 2: "\<forall>a n. heap w a = Some n \<longrightarrow>
      heap w' a = Some (if a \<in> set (getAllNeurons net) then n\<lparr>state := RESTING\<rparr> else n)"
    using h by (simp add: getAllNeurons_def)
  have 3: "\<forall>a. heap w a = None \<longrightarrow> heap w' a = None"
    using h by simp
  have 4: "\<exists>w''. Neuron_reset a w = Some w''
      \<and> heap w'' a = Some (n\<lparr>potential := 0, state := RESTING, inputSignals := [], outputSignals := []\<rparr>)"
    if "heap w a = Some n" for a n
    using that by (simp add: Neuron_reset_def reset_potential_def setState_def put_def)
  show ?thesis using 1 2 3 4 by blast
qed

text \<open>
  A network of an inhibited neuron with potential 0.3 and an edge, and an active neuron
  with a buffered signal: after the reset both are RESTING and keep potential, edge and
  buffer.
\<close>

theorem network_reset_frame_witness:
  "\<exists>w'. Network_reset (idle_network, busy_neurons) = Some (idle_network, w')
      \<and> heap w' 0 = Some ((Neuron_new ''A'' PROCESSING)
                            \<lparr>state := RESTING, potential := f32 0.3, connections := [(1, 0.7)]\<rparr>)
      \<and> heap w' 1 = Some ((Neuron_new ''B'' PROCESSING)
                            \<lparr>state := RESTING, inputs := [0],
                             inputSignals := [Synapse_new ''s'' EXCITATORY 1]\<rparr>)
      \<and> (\<exists>w''. Neuron_reset 1 busy_neurons = Some w''
            \<and> heap w'' 1 = Some ((Neuron_new ''B'' PROCESSING)\<lparr>state := RESTING, inputs := [0]\<rparr>))"
proof -
  have live: "\<forall>e \<in> set (neurons idle_network). heap busy_neurons (snd e) \<noteq> None"
    by (simp add: idle_network_def busy_neurons_def)
  have h0: "heap busy_neurons 0 = Some ((Neuron_new ''A'' PROCESSING)
      \<lparr>state := INHIBITED, potential := f32 0.3, connections := [(1, 0.7)]\<rparr>)"
    by (simp add: busy_neurons_def)
  have h1: "heap busy_neurons 1 = Some ((Neuron_new ''B'' PROCESSING)
      \<lparr>state := ACTIVE, inputs := [0], inputSignals := [Synapse_new ''s'' EXCITATORY 1]\<rparr>)"
    by (simp add: busy_neurons_def)
  have reg: "set (getAllNeurons idle_network) = {0, 1}"
    by (auto simp: getAllNeurons_def idle_network_def)
  from network_reset_frame [OF live] obtain w' where
    r: "Network_reset (idle_network, busy_neurons) = Some (idle_network, w')"
    and f: "\<forall>a n. heap busy_neurons a = Some n \<longrightarrow>
        heap w' a = Some (if a \<in> set (getAllNeurons idle_network) then n\<lparr>state := RESTING\<rparr> else n)"
    and nr: "\<forall>a n. heap busy_neurons a = Some n \<longrightarrow>
        (\<exists>w''. Neuron_reset a busy_neurons = Some w''
            \<and> heap w'' a = Some (n\<lparr>potential := 0, state := RESTING, inputSignals := [],
                                    outputSignals := []\<rparr>))"
    by blast
  have a0: "heap w' 0 = Some ((Neuron_new ''A'' PROCESSING)
      \<lparr>state := RESTING, potential := f32 0.3, connections := [(1, 0.7)]\<rparr>)"
    using f h0 reg by (simp add: Neuron_new_def)
  have a1: "heap w' 1 = Some ((Neuron_new ''B'' PROCESSING)
      \<lparr>state := RESTING, inputs := [0], inputSignals := [Synapse_new ''s'' EXCITATORY 1]\<rparr>)"
    using f h1 reg by (simp add: Neuron_new_def)
  have a2: "\<exists>w''. Neuron_reset 1 busy_neurons = Some w''
      \<and> heap w'' 1 = Some ((Neuron_new ''B'' PROCESSING)\<lparr>state := RESTING, inputs := [0]\<rparr>)"
    using nr [rule_format, OF h1] by (simp add: Neuron_new_def)
  show ?thesis using r a0 a1 a2 by blast
qed

section \<open>Network::processSignals\<close>

lemma fold_opt_cong:
  "(\<And>x s. x \<in> set xs \<Longrightarrow> P s \<Longrightarrow> f x s = g x s) \<Longrightarrow>
   (\<And>x s s'. x \<in> set xs \<Longrightarrow> P s \<Longrightarrow> g x s = Some s' \<Longrightarrow> P s') \<Longrightarrow> P s \<Longrightarrow>
   fold_opt f xs s = fold_opt g xs s"
proof (induction xs arbitrary: s)
  case Nil
  show ?case by simp
next
  case (Cons x xs)
  have eq: "f x s = g x s" using Cons.prems(1) [of x s] Cons.prems(3) by simp
  show ?case
  proof (cases "g x s")
    case None
    with eq show ?thesis by simp
  next
    case (Some s')
    have "P s'" using Cons.prems(2) [of x s s'] Cons.prems(3) Some by simp
    moreover have "\<And>y t. y \<in> set xs \<Longrightarrow> P t \<Longrightarrow> f y t = g y t"
      using Cons.prems(1) by simp
    moreover have "\<And>y t t'. y \<in> set xs \<Longrightarrow> P t \<Longrightarrow> g y t = Some t' \<Longrightarrow> P t'"
      using Cons.prems(2) by (meson list.set_intros(2))
    ultimately have "fold_opt f xs s' = fold_opt g xs s'"
      by (rule Cons.IH [rotated 2])
    with eq Some show ?thesis by simp
  qed
qed

lemma fold_opt_invariant:
  "(\<And>x s s'. x \<in> set xs \<Longrightarrow> P s \<Longrightarrow> f x s = Some s' \<Longrightarrow> P s') \<Longrightarrow> P s \<Longrightarrow>
   fold_opt f xs s = Some s' \<Longrightarrow> P s'"
proof (induction xs arbitrary: s)
  case Nil
  then show ?case by simp
next
  case (Cons x xs)
  from Cons.prems(3) obtain s1 where s1: "f x s = Some s1" and r: "fold_opt f xs s1 = Some s'"
    by (auto split: option.splits)
  have p1: "P s1" using Cons.prems(1) [of x s s1] Cons.prems(2) s1 by simp
  have st: "\<And>y t t'. y \<in> set xs \<Longrightarrow> P t \<Longrightarrow> f y t = Some t' \<Longrightarrow> P t'"
    using Cons.prems(1) by (meson list.set_intros(2))
  show ?case by (rule Cons.IH [OF st p1 r])
qed

lemma processSignals_busy:
  "processing net \<Longrightarrow> Network_processSignals P fuel cb (net, w) = Some (net, w)"
  by (simp add: Network_processSignals_def)

lemma processSignals_flag:
  assumes "Network_processSignals P fuel cb s = Some s'"
  shows "processing (fst s') = processing (fst s)"
proof (cases s)
  case (Pair net w)
  show ?thesis
  proof (cases "processing net")
    case True
    with assms Pair show ?thesis by (simp add: processSignals_busy)
  next
    case False
    with assms Pair show ?thesis
      by (auto simp: Network_processSignals_def Let_def split: Option.bind_splits prod.splits)
  qed
qed

text \<open>
  Claim C9. While a call of \<open>processSignals\<close> is in flight the flag \<open>processing\<close> is set,
  and a call made then returns at once with the network and the store as they are: no
  neuron is processed, no callback runs, the trace gets no entry. A registered callback
  \<open>k\<close> that calls \<open>processSignals\<close> again therefore does nothing beyond being invoked,
  and the call in flight gives the result it gives when \<open>k\<close> is a callback that does
  nothing. The callbacks are client code that can reach the flag through
  \<open>processSignals\<close> only (it is a private member), which is the first hypothesis.
\<close>

theorem reentrant_processSignals:
  assumes pres: "\<forall>j s s'. cb j s = Some s' \<longrightarrow> processing (fst s') = processing (fst s)"
    and re: "cb k = Network_processSignals P' fuel' cb'"
  shows "(processing net \<longrightarrow> Network_processSignals P fuel cb (net, w) = Some (net, w))
       \<and> (processing net \<longrightarrow>
            run_callback cb k (net, w) = Some (net, w\<lparr>trace := trace w @ [ProcessCallback k]\<rparr>))
       \<and> Network_processSignals P fuel cb (net, w) =
           Network_processSignals P fuel (cb(k := Some)) (net, w)"
proof (intro conjI impI)
  assume "processing net"
  then show "Network_processSignals P fuel cb (net, w) = Some (net, w)"
    by (rule processSignals_busy)
next
  assume "processing net"
  then show "run_callback cb k (net, w) = Some (net, w\<lparr>trace := trace w @ [ProcessCallback k]\<rparr>)"
    by (simp add: run_callback_def re processSignals_busy)
next
  have step: "run_callback cb j s = run_callback (cb(k := Some)) j s" if "processing (fst s)" for j s
  proof (cases s)
    case (Pair n v)
    with that show ?thesis by (simp add: run_callback_def re processSignals_busy)
  qed
  have keep: "processing (fst s')"
    if "processing (fst s)" "run_callback (cb(k := Some)) j s = Some s'" for j s s'
  proof (cases s)
    case (Pair n v)
    show ?thesis
    proof (cases "j = k")
      case True
      with that Pair show ?thesis by (auto simp: run_callback_def)
    next
      case False
      with that Pair have c: "cb j (n, v\<lparr>trace := trace v @ [ProcessCallback j]\<rparr>) = Some s'"
        by (simp add: run_callback_def)
      from pres [rule_format, OF c] that Pair show ?thesis by simp
    qed
  qed
  have loop: "fold_opt (run_callback cb) ks s = fold_opt (run_callback (cb(k := Some))) ks s"
    if "processing (fst s)" for ks s
    using step keep that by (intro fold_opt_cong [where P = "\<lambda>s. processing (fst s)"]) auto
  show "Network_processSignals P fuel cb (net, w) = Network_processSignals P fuel (cb(k := Some)) (net, w)"
    by (simp add: Network_processSignals_def Let_def loop cong: Option.bind_cong)
qed

text \<open>Unfolding rules for evaluating the neuron operations on a concrete store.\<close>

lemmas neuron_eval =
  Neuron_processSignals_def Neuron_processSignals_with_def Neuron_fire_with_def put_def
  integrate_potential_def signal_strength_def hasData_def getData_def setData_def
  default_signal_def setState_def reset_potential_def store_outputs_def deliver_def intact_def
  weighted_copy_def derive_def generateUUID_def setSourceId_def setTargetId_def addTag_def
  Synapse_new_def clamp01_def Neuron_new_def type_threshold_def type_tag_def
  Neuron_setThreshold_def onFire_def onStateChange_def

text \<open>
  A network with one registered callback, which calls \<open>processSignals\<close>: the nested call
  is dropped, the call in flight returns, and the callback was invoked once.
\<close>

theorem reentrant_processSignals_witness:
  "Network_processSignals ieee_glibc 1 reentrant_cb (idle_network\<lparr>processing := True\<rparr>, busy_neurons)
     = Some (idle_network\<lparr>processing := True\<rparr>, busy_neurons)
   \<and> run_callback reentrant_cb 0 (idle_network\<lparr>processing := True\<rparr>, busy_neurons)
     = Some (idle_network\<lparr>processing := True\<rparr>, busy_neurons\<lparr>trace := [ProcessCallback 0]\<rparr>)
   \<and> Network_processSignals ieee_glibc 1 reentrant_cb (idle_network, busy_neurons)
     = Network_processSignals ieee_glibc 1 (reentrant_cb(0 := Some)) (idle_network, busy_neurons)
   \<and> (\<exists>w'. Network_processSignals ieee_glibc 1 reentrant_cb (idle_network, busy_neurons) = Some (idle_network, w')
         \<and> trace w' = [ProcessCallback 0])"
proof -
  have pres: "\<forall>j s s'. reentrant_cb j s = Some s' \<longrightarrow> processing (fst s') = processing (fst s)"
    unfolding reentrant_cb_def using processSignals_flag by blast
  have re: "reentrant_cb 0 = Network_processSignals ieee_glibc 1 (\<lambda>j. Some)"
    by (simp add: reentrant_cb_def)
  have busy: "processing (idle_network\<lparr>processing := True\<rparr>)" by simp
  note t1 = reentrant_processSignals [OF pres re, where net = "idle_network\<lparr>processing := True\<rparr>"
      and P = ieee_glibc and fuel = 1 and w = busy_neurons]
  note t2 = reentrant_processSignals [OF pres re, where net = idle_network and P = ieee_glibc and fuel = 1
      and w = busy_neurons]
  have a: "Network_processSignals ieee_glibc 1 reentrant_cb (idle_network\<lparr>processing := True\<rparr>, busy_neurons)
     = Some (idle_network\<lparr>processing := True\<rparr>, busy_neurons)"
    using t1 busy by blast
  have b: "run_callback reentrant_cb 0 (idle_network\<lparr>processing := True\<rparr>, busy_neurons)
     = Some (idle_network\<lparr>processing := True\<rparr>, busy_neurons\<lparr>trace := [ProcessCallback 0]\<rparr>)"
    using t1 busy by (simp add: busy_neurons_def)
  have c: "Network_processSignals ieee_glibc 1 reentrant_cb (idle_network, busy_neurons)
     = Network_processSignals ieee_glibc 1 (reentrant_cb(0 := Some)) (idle_network, busy_neurons)"
    using t2 by blast
  have d: "\<exists>w'. Network_processSignals ieee_glibc 1 (reentrant_cb(0 := Some)) (idle_network, busy_neurons)
      = Some (idle_network, w') \<and> trace w' = [ProcessCallback 0]"
    by (simp add: Network_processSignals_def idle_network_def busy_neurons_def Network_new_def
        getAllNeurons_def run_callback_def neuron_eval platform_eval Let_def)
  show ?thesis using a b c d by simp
qed

section \<open>Network::removeNeuron\<close>

lemma disconnect_effect:
  assumes a: "heap w a = Some na" and t: "heap w t \<noteq> None"
  shows "\<exists>r w'. disconnectFrom a (Some t) w = Some (r, w')
           \<and> (\<forall>x. (heap w' x = None) = (heap w x = None))
           \<and> edges w' = edges w - {(a, t)}
           \<and> backrefs w' = (if (a, t) \<in> edges w then backrefs w - {(a, t)} else backrefs w)"
proof (cases "t \<in> set (map fst (connections na))")
  case False
  then have "disconnectFrom a (Some t) w = Some (False, w)"
    using a by (simp add: disconnectFrom_def conn_find_keys del: set_map)
  moreover have "(a, t) \<notin> edges w" using False a by (auto simp: edges_def)
  ultimately show ?thesis by auto
next
  case True
  define na' where "na' = na\<lparr>connections := conn_erase t (connections na)\<rparr>"
  define w0 where "w0 = put a na' w"
  obtain tn where tn: "heap w0 t = Some tn" and tni: "inputs tn = inputs (the (heap w t))"
    using t a by (cases "t = a") (auto simp: w0_def put_def na'_def)
  define tn' where "tn' = tn\<lparr>inputs := filter (\<lambda>p. \<not> (heap w0 p = None \<or> p = a)) (inputs tn)\<rparr>"
  define w' where "w' = put t tn' w0"
  have d: "disconnectFrom a (Some t) w = Some (True, w')"
    using a True tn
    by (simp add: disconnectFrom_def conn_find_keys Let_def w'_def tn'_def w0_def na'_def del: set_map)
  have live0: "(heap w0 x = None) = (heap w x = None)" for x
    using a by (simp add: w0_def put_def)
  have live: "(heap w' x = None) = (heap w x = None)" for x
    using live0 [of x] t by (simp add: w'_def put_def)
  have hx: "heap w' x = (if x = t then Some tn' else if x = a then Some na' else heap w x)" for x
    by (simp add: w'_def w0_def put_def)
  have tnc: "set (map fst (connections tn')) = (if t = a then set (map fst (connections na)) - {t}
       else set (map fst (connections (the (heap w t)))))"
    using tn t by (auto simp: tn'_def w0_def put_def na'_def keys_conn_erase simp del: set_map)
  have E: "edges w' = edges w - {(a, t)}"
  proof (rule set_eqI)
    fix e :: "addr \<times> addr"
    obtain x y where e: "e = (x, y)" by (cases e)
    show "(e \<in> edges w') = (e \<in> edges w - {(a, t)})"
    proof (cases "x = t")
      case xt: True
      show ?thesis
        using t a tnc unfolding e edges_def
        by (auto simp: hx xt simp del: set_map)
    next
      case xt: False
      show ?thesis
        using a unfolding e edges_def
        by (auto simp: hx xt na'_def keys_conn_erase simp del: set_map)
    qed
  qed
  have B: "backrefs w' = backrefs w - {(a, t)}"
  proof (rule set_eqI)
    fix e :: "addr \<times> addr"
    obtain p b where e: "e = (p, b)" by (cases e)
    show "(e \<in> backrefs w') = (e \<in> backrefs w - {(a, t)})"
    proof (cases "b = t")
      case bt: True
      show ?thesis
        using t tni unfolding e backrefs_def
        by (auto simp: hx bt live live0 tn'_def)
    next
      case bt: False
      show ?thesis
        using a t unfolding e backrefs_def
        by (auto simp: hx bt live na'_def)
    qed
  qed
  have "(a, t) \<in> edges w" using True a by (auto simp: edges_def)
  then show ?thesis using d live E B by auto
qed

lemma disconnect_consistent:
  assumes c: "edges_consistent w" and a: "heap w a \<noteq> None" and t: "heap w t \<noteq> None"
  shows "\<exists>r w'. disconnectFrom a (Some t) w = Some (r, w')
           \<and> (\<forall>x. (heap w' x = None) = (heap w x = None))
           \<and> edges w' = edges w - {(a, t)}
           \<and> edges_consistent w'"
proof -
  from a obtain na where na: "heap w a = Some na" by auto
  from disconnect_effect [OF na t] obtain r w' where
    d: "disconnectFrom a (Some t) w = Some (r, w')"
    and l: "\<forall>x. (heap w' x = None) = (heap w x = None)"
    and E: "edges w' = edges w - {(a, t)}"
    and B: "backrefs w' = (if (a, t) \<in> edges w then backrefs w - {(a, t)} else backrefs w)"
    by blast
  have "edges w' = backrefs w'"
    using c E B by (auto simp: edges_consistent_def)
  moreover have "\<forall>e \<in> edges w'. heap w' (snd e) \<noteq> None"
    using c E l by (auto simp: edges_consistent_def)
  ultimately have "edges_consistent w'" by (simp add: edges_consistent_def)
  with d l E show ?thesis by blast
qed

lemma disconnect_all:
  assumes "edges_consistent w" and "\<forall>e \<in> set ps. heap w (fst e) \<noteq> None \<and> heap w (snd e) \<noteq> None"
  shows "\<exists>w'. fold_opt (\<lambda>e v. map_option snd (disconnectFrom (fst e) (Some (snd e)) v)) ps w = Some w'
           \<and> (\<forall>x. (heap w' x = None) = (heap w x = None))
           \<and> edges w' = edges w - set ps
           \<and> edges_consistent w'"
  using assms
proof (induction ps arbitrary: w)
  case Nil
  then show ?case by simp
next
  case (Cons e ps)
  from Cons.prems have a: "heap w (fst e) \<noteq> None" and t: "heap w (snd e) \<noteq> None" by simp_all
  from disconnect_consistent [OF Cons.prems(1) a t] obtain r w1 where
    d: "disconnectFrom (fst e) (Some (snd e)) w = Some (r, w1)"
    and l: "\<forall>x. (heap w1 x = None) = (heap w x = None)"
    and E: "edges w1 = edges w - {(fst e, snd e)}"
    and c: "edges_consistent w1"
    by blast
  have "\<forall>e' \<in> set ps. heap w1 (fst e') \<noteq> None \<and> heap w1 (snd e') \<noteq> None"
    using Cons.prems(2) l by simp
  from Cons.IH [OF c this] obtain w' where
    f: "fold_opt (\<lambda>e v. map_option snd (disconnectFrom (fst e) (Some (snd e)) v)) ps w1 = Some w'"
    and l': "\<forall>x. (heap w' x = None) = (heap w1 x = None)"
    and E': "edges w' = edges w1 - set ps"
    and c': "edges_consistent w'"
    by blast
  have "fold_opt (\<lambda>e v. map_option snd (disconnectFrom (fst e) (Some (snd e)) v)) (e # ps) w = Some w'"
    using d f by simp
  moreover have "\<forall>x. (heap w' x = None) = (heap w x = None)" using l l' by simp
  moreover have "edges w' = edges w - set (e # ps)" using E E' by auto
  ultimately show ?case using c' by blast
qed

lemma fold_opt_map: "fold_opt f (map g xs) s = fold_opt (\<lambda>x. f (g x)) xs s"
  by (induction xs arbitrary: s) (simp_all split: option.splits)

text \<open>
  Claim C8. In a store with consistent edge bookkeeping, \<open>removeNeuron(id)\<close> of a registered
  neuron \<open>n\<close> returns true, and afterwards no neuron of the store (registered or not) has
  \<open>n\<close> among its connections or among its back-references, the identifier is no longer in
  the registry, and \<open>n\<close> is in neither the input list nor the output list; no neuron is
  added to or dropped from the store. For an identifier that is not registered
  \<open>removeNeuron\<close> returns false and changes nothing.
\<close>

theorem removeNeuron_unlinks:
  assumes c: "edges_consistent w"
  shows "(\<forall>n. map_of (neurons net) i = Some n \<and> heap w n \<noteq> None \<longrightarrow>
            (\<exists>net' w'. removeNeuron i (net, w) = Some (True, net', w')
               \<and> (\<forall>x nx. heap w' x = Some nx \<longrightarrow>
                     n \<notin> set (map fst (connections nx)) \<and> n \<notin> set (inputs nx))
               \<and> (\<forall>x. heap w x \<noteq> None \<longrightarrow>
                     n \<notin> set (getOutputs x w') \<and> n \<notin> set (getInputs x w'))
               \<and> getNeuron i net' = None
               \<and> n \<notin> set (inputNeurons net') \<and> n \<notin> set (outputNeurons net')
               \<and> (\<forall>x. (heap w' x = None) = (heap w x = None))))
       \<and> (map_of (neurons net) i = None \<longrightarrow> removeNeuron i (net, w) = Some (False, net, w))"
proof (intro conjI allI impI)
  assume "map_of (neurons net) i = None"
  then show "removeNeuron i (net, w) = Some (False, net, w)"
    by (simp add: removeNeuron_def)
next
  fix n assume h: "map_of (neurons net) i = Some n \<and> heap w n \<noteq> None"
  then have reg: "map_of (neurons net) i = Some n" and live: "heap w n \<noteq> None" by simp_all
  let ?step = "\<lambda>e v. map_option snd (disconnectFrom (fst e) (Some (snd e)) v)"
  let ?ps1 = "map (\<lambda>out. (n, out)) (getOutputs n w)"
  have out_edges: "set ?ps1 = {e \<in> edges w. fst e = n}"
  proof -
    from live obtain nn where nn: "heap w n = Some nn" by auto
    have "set ?ps1 = Pair n ` set (map fst (connections nn))"
      using nn by (simp add: getOutputs_def image_image)
    also have "\<dots> = {e \<in> edges w. fst e = n}"
      using nn unfolding edges_def by (auto simp del: set_map)
    finally show ?thesis .
  qed
  have "\<forall>e \<in> set ?ps1. heap w (fst e) \<noteq> None \<and> heap w (snd e) \<noteq> None"
    using c live out_edges by (auto simp: edges_consistent_def)
  from disconnect_all [OF c this] obtain w1 where
    f1: "fold_opt ?step ?ps1 w = Some w1"
    and l1: "\<forall>x. (heap w1 x = None) = (heap w x = None)"
    and E1: "edges w1 = edges w - set ?ps1"
    and c1: "edges_consistent w1"
    by blast
  let ?ps2 = "map (\<lambda>inp. (inp, n)) (getInputs n w1)"
  have live1: "heap w1 n \<noteq> None" using l1 live by simp
  have in_edges: "set ?ps2 = {e \<in> edges w1. snd e = n}"
  proof -
    from live1 obtain nn where nn: "heap w1 n = Some nn" by auto
    have "set ?ps2 = (\<lambda>inp. (inp, n)) ` {p \<in> set (inputs nn). heap w1 p \<noteq> None}"
      using nn by (simp add: getInputs_def)
    also have "\<dots> = {e \<in> backrefs w1. snd e = n}"
      using nn unfolding backrefs_def by auto
    finally have "set ?ps2 = {e \<in> backrefs w1. snd e = n}" .
    then show ?thesis using c1 by (simp add: edges_consistent_def)
  qed
  have "\<forall>e \<in> set ?ps2. heap w1 (fst e) \<noteq> None \<and> heap w1 (snd e) \<noteq> None"
    using live1 by (auto simp: getInputs_def)
  from disconnect_all [OF c1 this] obtain w2 where
    f2: "fold_opt ?step ?ps2 w1 = Some w2"
    and l2: "\<forall>x. (heap w2 x = None) = (heap w1 x = None)"
    and E2: "edges w2 = edges w1 - set ?ps2"
    and c2: "edges_consistent w2"
    by blast
  define net' where "net' = net\<lparr>inputNeurons := removeAll n (inputNeurons net),
      outputNeurons := removeAll n (outputNeurons net),
      neurons := filter (\<lambda>e. fst e \<noteq> i) (neurons net)\<rparr>"
  have g1: "fold_opt (\<lambda>output w'. map_option snd (disconnectFrom n (Some output) w')) (getOutputs n w) w = Some w1"
    using f1 by (simp add: fold_opt_map)
  have g2: "fold_opt (\<lambda>input w'. map_option snd (disconnectFrom input (Some n) w')) (getInputs n w1) w1 = Some w2"
    using f2 by (simp add: fold_opt_map)
  have r: "removeNeuron i (net, w) = Some (True, net', w2)"
    using reg g1 g2 by (simp add: removeNeuron_def net'_def)
  have none_out: "\<forall>x. (x, n) \<notin> edges w2" and none_in: "\<forall>x. (n, x) \<notin> edges w2"
    using E1 E2 in_edges out_edges by auto
  have live2: "heap w2 n \<noteq> None" using l2 live1 by simp
  have clean: "n \<notin> set (map fst (connections nx)) \<and> n \<notin> set (inputs nx)" if "heap w2 x = Some nx" for x nx
  proof
    show "n \<notin> set (map fst (connections nx))"
      using none_out that by (auto simp: edges_def)
    have "(n, x) \<notin> backrefs w2" using none_in c2 by (simp add: edges_consistent_def)
    then show "n \<notin> set (inputs nx)" using that live2 by (auto simp: backrefs_def)
  qed
  have clean': "n \<notin> set (getOutputs x w2) \<and> n \<notin> set (getInputs x w2)" if "heap w x \<noteq> None" for x
  proof -
    from that l1 l2 have "heap w2 x \<noteq> None" by simp
    then obtain nx where nx: "heap w2 x = Some nx" by blast
    from clean [OF nx] show ?thesis using nx by (simp add: getOutputs_def getInputs_def)
  qed
  have gone: "getNeuron i net' = None"
    by (simp add: getNeuron_def net'_def map_of_eq_None_iff image_iff)
  have lists: "n \<notin> set (inputNeurons net') \<and> n \<notin> set (outputNeurons net')"
    by (simp add: net'_def)
  have dom: "\<forall>x. (heap w2 x = None) = (heap w x = None)" using l1 l2 by simp
  show "\<exists>net' w'. removeNeuron i (net, w) = Some (True, net', w')
               \<and> (\<forall>x nx. heap w' x = Some nx \<longrightarrow>
                     n \<notin> set (map fst (connections nx)) \<and> n \<notin> set (inputs nx))
               \<and> (\<forall>x. heap w x \<noteq> None \<longrightarrow>
                     n \<notin> set (getOutputs x w') \<and> n \<notin> set (getInputs x w'))
               \<and> getNeuron i net' = None
               \<and> n \<notin> set (inputNeurons net') \<and> n \<notin> set (outputNeurons net')
               \<and> (\<forall>x. (heap w' x = None) = (heap w x = None))"
    using r clean clean' gone lists dom by blast
qed

lemma connect_consistent:
  assumes c: "edges_consistent w" and r: "connectTo a target weight w = Some (r, w')"
  shows "edges_consistent w'"
proof -
  from r obtain na where na: "heap w a = Some na"
    by (auto simp: connectTo_def split: option.splits)
  show ?thesis
  proof (cases target)
    case None
    with r na c show ?thesis by (simp add: connectTo_def)
  next
    case (Some t)
    show ?thesis
    proof (cases "t = a")
      case True
      with r na c Some show ?thesis by (simp add: connectTo_def)
    next
      case ta: False
      define na' where "na' = na\<lparr>connections := conn_set t weight (connections na)\<rparr>"
      show ?thesis
      proof (cases "t \<in> set (map fst (connections na))")
        case True
        with r na Some ta have w': "w' = put a na' w"
          by (auto simp: connectTo_def conn_find_keys na'_def simp del: set_map)
        have k: "set (map fst (connections na')) = set (map fst (connections na))"
          using True unfolding na'_def by (simp add: keys_conn_set insert_absorb del: set_map)
        have l: "(heap w' x = None) = (heap w x = None)" for x
          using na by (simp add: w' put_def)
        have E: "edges w' = edges w"
          unfolding edges_def w' using na k by (auto simp: put_def simp del: set_map split: if_splits)
        have B: "backrefs w' = backrefs w"
          unfolding backrefs_def using na by (auto simp: w' put_def na'_def split: if_splits)
        show ?thesis using c E B l by (simp add: edges_consistent_def)
      next
        case False
        with r na Some ta obtain tn where tn: "heap w t = Some tn"
          and w': "w' = put t (tn\<lparr>inputs := inputs tn @ [a]\<rparr>) (put a na' w)"
          by (auto simp: connectTo_def conn_find_keys na'_def simp del: set_map split: option.splits)
        have k: "set (map fst (connections na')) = insert t (set (map fst (connections na)))"
          unfolding na'_def by (simp add: keys_conn_set del: set_map)
        have l: "(heap w' x = None) = (heap w x = None)" for x
          using na tn by (simp add: w' put_def)
        have E: "edges w' = insert (a, t) (edges w)"
          unfolding edges_def w' using na tn k ta by (auto simp: put_def simp del: set_map split: if_splits)
        have B: "backrefs w' = insert (a, t) (backrefs w)"
          unfolding backrefs_def using na tn ta by (auto simp: w' put_def na'_def split: if_splits)
        show ?thesis using c E B l tn by (auto simp: edges_consistent_def)
      qed
    qed
  qed
qed

lemma triangle_consistent: "edges_consistent triangle"
proof -
  have E: "edges triangle = {(0, 1), (1, 2), (2, 1)}"
    by (auto simp: edges_def triangle_def Neuron_new_def split: if_splits)
  have B: "backrefs triangle = {(0, 1), (1, 2), (2, 1)}"
    by (auto simp: backrefs_def triangle_def Neuron_new_def split: if_splits)
  show ?thesis
    unfolding edges_consistent_def E B by (simp add: triangle_def)
qed

text \<open>
  Three neurons with the edges \<open>A \<rightarrow> B\<close>, \<open>B \<rightarrow> C\<close> and \<open>C \<rightarrow> B\<close>, \<open>B\<close> an input neuron:
  after \<open>removeNeuron("B")\<close> neither \<open>A\<close> nor \<open>C\<close> refers to \<open>B\<close>.
\<close>

theorem removeNeuron_unlinks_witness:
  "(\<exists>net' w'. removeNeuron ''B'' (triangle_net, triangle) = Some (True, net', w')
       \<and> 1 \<notin> set (getOutputs 0 w') \<and> 1 \<notin> set (getInputs 0 w')
       \<and> 1 \<notin> set (getOutputs 2 w') \<and> 1 \<notin> set (getInputs 2 w')
       \<and> getNeuron ''B'' net' = None
       \<and> 1 \<notin> set (inputNeurons net') \<and> 1 \<notin> set (outputNeurons net'))
   \<and> removeNeuron ''Z'' (triangle_net, triangle) = Some (False, triangle_net, triangle)"
proof -
  note t = removeNeuron_unlinks [OF triangle_consistent]
  have reg: "map_of (neurons triangle_net) ''B'' = Some 1 \<and> heap triangle 1 \<noteq> None"
    by (simp add: triangle_net_def triangle_def)
  have l0: "heap triangle 0 \<noteq> None" and l2: "heap triangle 2 \<noteq> None"
    by (simp_all add: triangle_def)
  from t [of triangle_net "''B''"] reg obtain net' w' where
    r: "removeNeuron ''B'' (triangle_net, triangle) = Some (True, net', w')"
    and cl: "\<forall>x. heap triangle x \<noteq> None \<longrightarrow> 1 \<notin> set (getOutputs x w') \<and> 1 \<notin> set (getInputs x w')"
    and g: "getNeuron ''B'' net' = None"
    and li: "1 \<notin> set (inputNeurons net') \<and> 1 \<notin> set (outputNeurons net')"
    by blast
  have z: "map_of (neurons triangle_net) ''Z'' = None"
    by (simp add: triangle_net_def)
  have "removeNeuron ''Z'' (triangle_net, triangle) = Some (False, triangle_net, triangle)"
    using t [of triangle_net "''Z''"] z by blast
  with r cl l0 l2 g li show ?thesis by blast
qed

section \<open>Neuron::receiveSignal and Neuron::processSignals\<close>

lemma signal_strength_field [simp]: "signal_strength P (setStrength v s) = signal_strength P s"
  by (simp add: signal_strength_def setStrength_def hasData_def getData_def)

lemma run_gates_length: "run_gates P gs xs k = (ps, k') \<Longrightarrow> length ps = length xs"
proof (induction xs arbitrary: k ps k')
  case Nil
  then show ?case by simp
next
  case (Cons x xs)
  show ?case
  proof (cases "try_gates P gs (generateUUID k) x")
    case None
    obtain qs j where q: "run_gates P gs xs k = (qs, j)" by (cases "run_gates P gs xs k")
    from Cons.IH [OF q] Cons.prems None q show ?thesis by auto
  next
    case (Some r)
    obtain qs j where q: "run_gates P gs xs (Suc k) = (qs, j)" by (cases "run_gates P gs xs (Suc k)")
    from Cons.IH [OF q] Cons.prems Some q show ?thesis by auto
  qed
qed


lemma frame_refl: "frame x w w"
proof (cases "heap w x")
  case None
  then show ?thesis by (simp add: frame_def)
next
  case (Some nx)
  have "nx = nx\<lparr>inputSignals := inputSignals nx\<rparr>" by simp
  then have "\<exists>buf. nx = nx\<lparr>inputSignals := buf\<rparr>" by (rule exI)
  with Some show ?thesis by (simp add: frame_def)
qed

lemma frame_trans:
  assumes a: "frame x w w1" and b: "frame x w1 w2"
  shows "frame x w w2"
proof (cases "heap w x")
  case None
  from a None obtain e1 where e1: "trace w1 = trace w @ e1" and h1: "heap w1 x = None"
    by (auto simp: frame_def)
  from b h1 obtain e2 where e2: "trace w2 = trace w1 @ e2" and h2: "heap w2 x = None"
    by (auto simp: frame_def)
  have "trace w2 = trace w @ (e1 @ e2)" using e1 e2 by simp
  with h2 None show ?thesis unfolding frame_def by auto
next
  case (Some nx)
  from a Some obtain e1 nx1 s1 where e1: "trace w1 = trace w @ e1" and h1: "heap w1 x = Some nx1"
    and o1: "outputSignals nx1 = outputSignals nx @ s1"
    and c1: "s1 = [] \<longrightarrow> (\<exists>buf. nx1 = nx\<lparr>inputSignals := buf\<rparr>) \<and> (\<not> blocked nx \<longrightarrow> nx1 = nx)
               \<and> (\<forall>ev \<in> set e1. event_neuron ev \<noteq> Some x)"
    by (auto simp: frame_def)
  from b h1 obtain e2 nx2 s2 where e2: "trace w2 = trace w1 @ e2" and h2: "heap w2 x = Some nx2"
    and o2: "outputSignals nx2 = outputSignals nx1 @ s2"
    and c2: "s2 = [] \<longrightarrow> (\<exists>buf. nx2 = nx1\<lparr>inputSignals := buf\<rparr>) \<and> (\<not> blocked nx1 \<longrightarrow> nx2 = nx1)
               \<and> (\<forall>ev \<in> set e2. event_neuron ev \<noteq> Some x)"
    by (auto simp: frame_def)
  have t: "trace w2 = trace w @ (e1 @ e2)" using e1 e2 by simp
  have o: "outputSignals nx2 = outputSignals nx @ (s1 @ s2)" using o1 o2 by simp
  have c: "(\<exists>buf. nx2 = nx\<lparr>inputSignals := buf\<rparr>) \<and> (\<not> blocked nx \<longrightarrow> nx2 = nx)
               \<and> (\<forall>ev \<in> set (e1 @ e2). event_neuron ev \<noteq> Some x)"
    if "s1 @ s2 = []"
  proof -
    from that have z: "s1 = []" "s2 = []" by simp_all
    from c1 z obtain b1 where n1: "nx1 = nx\<lparr>inputSignals := b1\<rparr>" by blast
    from c2 z obtain b2 where n2: "nx2 = nx1\<lparr>inputSignals := b2\<rparr>" by blast
    have "nx2 = nx\<lparr>inputSignals := b2\<rparr>" by (simp add: n1 n2)
    then have i: "\<exists>buf. nx2 = nx\<lparr>inputSignals := buf\<rparr>" by (rule exI)
    have bl: "blocked nx1 = blocked nx" by (simp add: n1 blocked_def)
    have ii: "\<not> blocked nx \<longrightarrow> nx2 = nx" using c1 c2 z bl by auto
    have iii: "\<forall>ev \<in> set (e1 @ e2). event_neuron ev \<noteq> Some x" using c1 c2 z by auto
    show ?thesis using i ii iii by blast
  qed
  show ?thesis
    unfolding frame_def using Some h2 t o c
    by (intro exI [of _ "e1 @ e2"] conjI) (auto intro!: exI [of _ "s1 @ s2"])
qed

lemma frame_uuid [simp]: "frame x (w\<lparr>uuid_next := k\<rparr>) w' = frame x w w'"
  by (simp add: frame_def)

lemma frame_other:
  assumes "x \<noteq> t" "heap w' x = heap w x" "trace w' = trace w @ ext"
    and "\<forall>ev \<in> set ext. event_neuron ev = Some t"
  shows "frame x w w'"
proof (cases "heap w x")
  case None
  with assms show ?thesis by (simp add: frame_def)
next
  case (Some nx)
  have "nx = nx\<lparr>inputSignals := inputSignals nx\<rparr>" by simp
  then have e: "\<exists>buf. nx = nx\<lparr>inputSignals := buf\<rparr>" by (rule exI)
  have n: "\<forall>ev \<in> set ext. event_neuron ev \<noteq> Some x" using assms by auto
  show ?thesis
    unfolding frame_def using Some assms(2,3) e n
    by (intro exI [of _ ext] conjI) (auto intro!: exI [of _ "[]"])
qed

lemma fold_opt_rel:
  assumes step: "\<And>y v v'. y \<in> set ys \<Longrightarrow> I v \<Longrightarrow> f y v = Some v' \<Longrightarrow> R v v' \<and> I v'"
    and refl: "\<And>v. R v v"
    and trans: "\<And>u v z. R u v \<Longrightarrow> R v z \<Longrightarrow> R u z"
    and init: "I vs"
    and run: "fold_opt f ys vs = Some v'"
  shows "R vs v' \<and> I v'"
  using step init run
proof (induction ys arbitrary: vs)
  case Nil
  then show ?case using refl by simp
next
  case (Cons y ys)
  from Cons.prems(3) obtain v1 where v1: "f y vs = Some v1" and r: "fold_opt f ys v1 = Some v'"
    by (auto split: option.splits)
  have s1: "R vs v1 \<and> I v1" using Cons.prems(1) [of y vs v1] Cons.prems(2) v1 by simp
  have "R v1 v' \<and> I v'"
  proof (rule Cons.IH)
    show "R v z \<and> I z" if "y' \<in> set ys" "I v" "f y' v = Some z" for y' v z
      using Cons.prems(1) [of y' v z] that by simp
    show "I v1" using s1 by simp
    show "fold_opt f ys v1 = Some v'" by (rule r)
  qed
  with s1 trans show ?case by blast
qed

lemma fire_frame:
  fixes P :: platform and n0 :: Neuron
  defines "nd \<equiv> (if outputSignals n0 = [] then n0\<lparr>outputSignals := [default_signal P n0]\<rparr> else n0)"
  assumes H: "\<forall>tt sg v v' x. recv tt sg v = Some v' \<longrightarrow> frame x v v'"
    and n0: "heap w t = Some n0"
    and run: "Neuron_fire_with P recv t w = Some w2"
  shows "\<exists>ext buf. trace w2 = trace w @ ext @ map (\<lambda>k. FireCallback k t) (fireCallbacks n0)
           \<and> heap w2 t = Some (nd\<lparr>inputSignals := buf\<rparr>)
           \<and> (\<not> blocked n0 \<longrightarrow> buf = inputSignals n0)
           \<and> (\<forall>ev \<in> set ext. event_neuron ev \<noteq> Some t)
           \<and> (\<forall>x. x \<noteq> t \<longrightarrow> frame x w w2)"
proof -
  define outs where "outs = outputSignals nd"
  define I where "I = (\<lambda>v :: World. \<exists>nv. heap v t = Some nv \<and> outputSignals nv = outs)"
  define R where "R = (\<lambda>(v :: World) (v' :: World). \<forall>x. frame x v v')"
  define w1 where "w1 = put t nd w"
  define inner where "inner = (\<lambda>target weight signal w'.
      Option.bind (deliver P recv (nid nd) target weight signal w') (intact t outs))"
  have Rrefl: "R v v" for v by (simp add: R_def frame_refl)
  have Rtrans: "R u v \<Longrightarrow> R v z \<Longrightarrow> R u z" for u v z
    unfolding R_def using frame_trans by blast
  have step: "R v v' \<and> I v'" if "inner target weight signal v = Some v'" for target weight signal v v'
  proof -
    from that obtain v'' where d: "deliver P recv (nid nd) target weight signal v = Some v''"
      and i: "intact t outs v'' = Some v'"
      by (auto simp: inner_def split: Option.bind_splits)
    from i have eq: "v' = v''" and iv: "I v'"
      by (auto simp: intact_def I_def split: option.splits if_splits)
    from d obtain tn c where "recv target (Some c) (v\<lparr>uuid_next := Suc (uuid_next v)\<rparr>) = Some v''"
      by (auto simp: deliver_def split: option.splits)
    with H have "frame x (v\<lparr>uuid_next := Suc (uuid_next v)\<rparr>) v''" for x by blast
    then have "frame x v v''" for x by simp
    with eq iv show ?thesis by (simp add: R_def)
  qed
  have inner_loop: "R v v' \<and> I v'"
    if "I v" "fold_opt (inner target weight) sgs v = Some v'" for target weight sgs v v'
  proof (rule fold_opt_rel [where f = "inner target weight" and ys = sgs and R = R and I = I and vs = v])
    show "R u u" for u by (rule Rrefl)
    show "R u v \<Longrightarrow> R v z \<Longrightarrow> R u z" for u v z by (rule Rtrans)
    show "I v" by (rule that(1))
    show "fold_opt (inner target weight) sgs v = Some v'" by (rule that(2))
    show "R u u' \<and> I u'" if "inner target weight y u = Some u'" for y u u'
      using that by (rule step)
  qed
  have outer_loop: "R v v' \<and> I v'"
    if "I v" "fold_opt (\<lambda>(target, weight). fold_opt (inner target weight) (outputSignals nd)) cs v = Some v'"
    for cs v v'
  proof (rule fold_opt_rel [where f = "\<lambda>(target, weight). fold_opt (inner target weight) (outputSignals nd)"
          and ys = cs and R = R and I = I and vs = v])
    show "R u u" for u by (rule Rrefl)
    show "R u v \<Longrightarrow> R v z \<Longrightarrow> R u z" for u v z by (rule Rtrans)
    show "I v" by (rule that(1))
    show "fold_opt (\<lambda>(target, weight). fold_opt (inner target weight) (outputSignals nd)) cs v = Some v'"
      by (rule that(2))
    show "R u u' \<and> I u'"
      if "y \<in> set cs" "I u" "(case y of (target, weight) \<Rightarrow> fold_opt (inner target weight) (outputSignals nd)) u = Some u'"
      for y u u'
      using that inner_loop [of u "fst y" "snd y" "outputSignals nd" u'] by (simp add: case_prod_unfold)
  qed
  have h1: "heap w1 t = Some nd" by (simp add: w1_def put_def)
  have I1: "I w1" by (simp add: I_def h1 outs_def)
  have unf: "Neuron_fire_with P recv t w =
      (case fold_opt (\<lambda>(target, weight). fold_opt (inner target weight) (outputSignals nd)) (connections nd) w1 of
         None \<Rightarrow> None
       | Some wl \<Rightarrow>
           (case heap wl t of
              None \<Rightarrow> None
            | Some n2 \<Rightarrow> Some (wl\<lparr>trace := trace wl @ map (\<lambda>k. FireCallback k t) (fireCallbacks n2)\<rparr>)))"
    unfolding Neuron_fire_with_def Let_def inner_def outs_def w1_def nd_def using n0 by simp
  from run obtain wl where
    loop: "fold_opt (\<lambda>(target, weight). fold_opt (inner target weight) (outputSignals nd)) (connections nd) w1 = Some wl"
    and rest: "(case heap wl t of
              None \<Rightarrow> None
            | Some n2 \<Rightarrow> Some (wl\<lparr>trace := trace wl @ map (\<lambda>k. FireCallback k t) (fireCallbacks n2)\<rparr>)) = Some w2"
    unfolding unf by (cases "fold_opt (\<lambda>(target, weight). fold_opt (inner target weight) (outputSignals nd)) (connections nd) w1") simp_all
  from rest obtain n2 where hl: "heap wl t = Some n2"
    and w2: "w2 = wl\<lparr>trace := trace wl @ map (\<lambda>k. FireCallback k t) (fireCallbacks n2)\<rparr>"
    by (cases "heap wl t") auto
  from outer_loop [OF I1 loop] have Rl: "R w1 wl" and Il: "I wl" by simp_all
  from Rl have ft: "frame t w1 wl" by (simp add: R_def)
  from ft h1 obtain ext nx' sfx where tr: "trace wl = trace w1 @ ext" and hx: "heap wl t = Some nx'"
    and ox: "outputSignals nx' = outputSignals nd @ sfx"
    and cx: "sfx = [] \<longrightarrow> (\<exists>buf. nx' = nd\<lparr>inputSignals := buf\<rparr>) \<and> (\<not> blocked nd \<longrightarrow> nx' = nd)
               \<and> (\<forall>ev \<in> set ext. event_neuron ev \<noteq> Some t)"
    by (auto simp: frame_def)
  from Il hx have "outputSignals nx' = outs" by (simp add: I_def)
  with ox have sfx: "sfx = []" by (simp add: outs_def)
  from cx sfx obtain buf where nb: "nx' = nd\<lparr>inputSignals := buf\<rparr>" by blast
  have n2: "n2 = nd\<lparr>inputSignals := buf\<rparr>" using hl hx nb by simp
  have bl: "blocked nd = blocked n0" by (simp add: nd_def blocked_def)
  have in0: "inputSignals nd = inputSignals n0" by (simp add: nd_def)
  have fc: "fireCallbacks n2 = fireCallbacks n0" by (simp add: n2 nd_def)
  have buf: "\<not> blocked n0 \<longrightarrow> buf = inputSignals n0"
  proof
    assume "\<not> blocked n0"
    with cx sfx bl have "nx' = nd" by simp
    moreover have "inputSignals nx' = buf" by (simp add: nb)
    ultimately have "inputSignals nd = buf" by simp
    with in0 show "buf = inputSignals n0" by simp
  qed
  have t2: "trace w2 = trace w @ ext @ map (\<lambda>k. FireCallback k t) (fireCallbacks n0)"
    using tr by (simp add: w2 fc w1_def put_def)
  have h2: "heap w2 t = Some (nd\<lparr>inputSignals := buf\<rparr>)"
    using hl n2 by (simp add: w2)
  have ne: "\<forall>ev \<in> set ext. event_neuron ev \<noteq> Some t" using cx sfx by simp
  have others: "frame x w w2" if "x \<noteq> t" for x
  proof -
    have a: "frame x w w1"
      using that by (intro frame_other [where t = t and ext = "[]"]) (simp_all add: w1_def put_def)
    have b: "frame x w1 wl" using Rl by (simp add: R_def)
    have c: "frame x wl w2"
      using that
      by (intro frame_other [where t = t and ext = "map (\<lambda>k. FireCallback k t) (fireCallbacks n2)"])
        (simp_all add: w2)
    from a b c show ?thesis by (blast intro: frame_trans)
  qed
  show ?thesis using t2 h2 buf ne others by blast
qed



lemma process_fires:
  fixes P :: platform and n :: Neuron
  defines "nd \<equiv> (if outputSignals n = [] then n\<lparr>outputSignals := [default_signal P n]\<rparr> else n)"
  assumes H: "\<forall>tt sg v v' x. recv tt sg v = Some v' \<longrightarrow> frame x v v'"
    and n: "heap w1 t = Some n" and free: "\<not> blocked n"
    and run: "Option.bind (Neuron_fire_with P recv t w1) (\<lambda>w2.
              Option.bind (setState t REFRACTORY w2) (\<lambda>w3.
              Option.bind (reset_potential t w3) (\<lambda>w4.
              Option.bind (setState t RESTING w4) (\<lambda>w5.
              store_outputs t ps w5)))) = Some w'"
  shows "\<exists>ext. trace w' = trace w1 @ ext @ map (\<lambda>k. FireCallback k t) (fireCallbacks n)
             @ map (\<lambda>k. StateChangeCallback k t (state n) REFRACTORY) (stateChangeCallbacks n)
             @ map (\<lambda>k. StateChangeCallback k t REFRACTORY RESTING) (stateChangeCallbacks n)
           \<and> heap w' t = Some (nd\<lparr>potential := 0, state := RESTING,
                                  outputSignals := outputSignals nd @ ps\<rparr>)
           \<and> (\<forall>ev \<in> set ext. event_neuron ev \<noteq> Some t)
           \<and> (\<forall>x. x \<noteq> t \<longrightarrow> frame x w1 w')"
proof -
  from run obtain w2 where f: "Neuron_fire_with P recv t w1 = Some w2"
    and r2: "Option.bind (setState t REFRACTORY w2) (\<lambda>w3.
              Option.bind (reset_potential t w3) (\<lambda>w4.
              Option.bind (setState t RESTING w4) (\<lambda>w5.
              store_outputs t ps w5))) = Some w'"
    by (cases "Neuron_fire_with P recv t w1") simp_all
  from fire_frame [OF H n f] free obtain ext where
    t2: "trace w2 = trace w1 @ ext @ map (\<lambda>k. FireCallback k t) (fireCallbacks n)"
    and h2: "heap w2 t = Some (nd\<lparr>inputSignals := inputSignals n\<rparr>)"
    and ne: "\<forall>ev \<in> set ext. event_neuron ev \<noteq> Some t"
    and others: "\<forall>x. x \<noteq> t \<longrightarrow> frame x w1 w2"
    unfolding nd_def by blast
  have nd_in: "nd\<lparr>inputSignals := inputSignals n\<rparr> = nd" by (simp add: nd_def)
  have h2': "heap w2 t = Some nd" using h2 nd_in by simp
  have same: "state nd = state n" "stateChangeCallbacks nd = stateChangeCallbacks n"
    by (simp_all add: nd_def)
  define w'' where "w'' = w2\<lparr>trace := trace w2 @ map (\<lambda>k. StateChangeCallback k t (state n) REFRACTORY) (stateChangeCallbacks n)
             @ map (\<lambda>k. StateChangeCallback k t REFRACTORY RESTING) (stateChangeCallbacks n),
      heap := (heap w2)(t \<mapsto> nd\<lparr>potential := 0, state := RESTING,
                                      outputSignals := outputSignals nd @ ps\<rparr>)\<rparr>"
  have "Option.bind (setState t REFRACTORY w2) (\<lambda>w3.
              Option.bind (reset_potential t w3) (\<lambda>w4.
              Option.bind (setState t RESTING w4) (\<lambda>w5.
              store_outputs t ps w5))) = Some w''"
    by (simp add: setState_def reset_potential_def store_outputs_def put_def h2' same w''_def)
  with r2 have w': "w' = w''" by simp
  have tr: "trace w' = trace w1 @ ext @ map (\<lambda>k. FireCallback k t) (fireCallbacks n)
             @ map (\<lambda>k. StateChangeCallback k t (state n) REFRACTORY) (stateChangeCallbacks n)
             @ map (\<lambda>k. StateChangeCallback k t REFRACTORY RESTING) (stateChangeCallbacks n)"
    by (simp add: w' w''_def t2)
  have hp: "heap w' t = Some (nd\<lparr>potential := 0, state := RESTING, outputSignals := outputSignals nd @ ps\<rparr>)"
    by (simp add: w' w''_def)
  have fr: "frame x w1 w'" if "x \<noteq> t" for x
  proof -
    have a: "frame x w1 w2" using others that by simp
    have b: "frame x w2 w'"
      using that
      by (intro frame_other [where t = t and ext =
            "map (\<lambda>k. StateChangeCallback k t (state n) REFRACTORY) (stateChangeCallbacks n)
             @ map (\<lambda>k. StateChangeCallback k t REFRACTORY RESTING) (stateChangeCallbacks n)"])
        (auto simp: w' w''_def)
    from a b show ?thesis by (rule frame_trans)
  qed
  show ?thesis using tr hp ne fr by blast
qed

lemma process_frame:
  assumes H: "\<forall>tt sg v v' x. recv tt sg v = Some v' \<longrightarrow> frame x v v'"
    and n: "heap w t = Some n"
    and run: "Neuron_processSignals_with P recv t (put t (n\<lparr>inputSignals := inputSignals n @ [s]\<rparr>) w) = Some w'"
  shows "frame x w w'"
proof -
  define n0 where "n0 = n\<lparr>inputSignals := inputSignals n @ [s]\<rparr>"
  define w0 where "w0 = put t n0 w"
  have h0: "heap w0 t = Some n0" by (simp add: w0_def put_def)
  have run0: "Neuron_processSignals_with P recv t w0 = Some w'"
    using run by (simp add: w0_def n0_def)
  have self_grow: "frame t w v"
    if "trace v = trace w @ ext" "heap v t = Some nv" "outputSignals nv = outputSignals n @ sfx" "sfx \<noteq> []"
    for v ext nv sfx
    unfolding frame_def using n that
    by (intro exI [of _ ext] conjI) (auto intro!: exI [of _ sfx])
  show ?thesis
  proof (cases "blocked n")
    case True
    then have "Neuron_processSignals_with P recv t w0 = Some w0"
      by (simp add: Neuron_processSignals_with_def h0 n0_def blocked_def)
    with run0 have w': "w' = w0" by simp
    show ?thesis
    proof (cases "x = t")
      case True
      have "\<exists>buf. n0 = n\<lparr>inputSignals := buf\<rparr>" unfolding n0_def by (rule exI) simp
      then show ?thesis
        unfolding frame_def using n \<open>blocked n\<close> True
        by (intro exI [of _ "[]"] conjI) (auto simp: w' w0_def put_def n0_def intro!: exI [of _ "[]"])
    next
      case False
      then show ?thesis
        by (intro frame_other [where t = t and ext = "[]"]) (simp_all add: w' w0_def put_def)
    qed
  next
    case False
    obtain ps k where rg: "run_gates P (gates n) (inputSignals n @ [s]) (uuid_next w) = (ps, k)"
      by (cases "run_gates P (gates n) (inputSignals n @ [s]) (uuid_next w)")
    from run_gates_length [OF rg] have ps: "ps \<noteq> []" by auto
    define p where "p = integrate_potential P (potential n) ps"
    define n1 where "n1 = n\<lparr>inputSignals := [], potential := p\<rparr>"
    define w1 where "w1 = (put t n1 w0)\<lparr>uuid_next := k\<rparr>"
    have h1: "heap w1 t = Some n1" by (simp add: w1_def put_def)
    have hx1: "heap w1 y = heap w y" if "y \<noteq> t" for y
      using that by (simp add: w1_def w0_def put_def)
    have t1: "trace w1 = trace w" by (simp add: w1_def w0_def put_def)
    have free1: "\<not> blocked n1" using False by (simp add: n1_def blocked_def)
    have unf: "Neuron_processSignals_with P recv t w0 =
        (if f_ge P p (f32 (threshold n)) then
           Option.bind (Neuron_fire_with P recv t w1) (\<lambda>w2.
           Option.bind (setState t REFRACTORY w2) (\<lambda>w3.
           Option.bind (reset_potential t w3) (\<lambda>w4.
           Option.bind (setState t RESTING w4) (\<lambda>w5.
           store_outputs t ps w5))))
         else store_outputs t ps w1)"
      using False rg
      by (simp add: Neuron_processSignals_with_def h0 n0_def blocked_def w0_def put_def p_def w1_def n1_def)
    show ?thesis
    proof (cases "f_ge P p (f32 (threshold n))")
      case quiet: False
      with run0 unf have w': "w' = put t (n1\<lparr>outputSignals := outputSignals n1 @ ps\<rparr>) w1"
        by (simp add: store_outputs_def h1)
      show ?thesis
      proof (cases "x = t")
        case True
        have "frame t w w'"
          using ps
          by (intro self_grow [where ext = "[]" and sfx = ps
                and nv = "n1\<lparr>outputSignals := outputSignals n1 @ ps\<rparr>"])
            (simp_all add: w' put_def t1 n1_def)
        with True show ?thesis by simp
      next
        case False
        then show ?thesis
          by (intro frame_other [where t = t and ext = "[]"]) (simp_all add: w' put_def hx1 t1)
      qed
    next
      case fires: True
      with run0 unf have r: "Option.bind (Neuron_fire_with P recv t w1) (\<lambda>w2.
           Option.bind (setState t REFRACTORY w2) (\<lambda>w3.
           Option.bind (reset_potential t w3) (\<lambda>w4.
           Option.bind (setState t RESTING w4) (\<lambda>w5.
           store_outputs t ps w5)))) = Some w'"
        by simp
      define nd where "nd = (if outputSignals n1 = [] then n1\<lparr>outputSignals := [default_signal P n1]\<rparr> else n1)"
      from process_fires [OF H h1 free1 r] obtain ext where
        tr: "trace w' = trace w1 @ ext @ map (\<lambda>k. FireCallback k t) (fireCallbacks n1)
             @ map (\<lambda>k. StateChangeCallback k t (state n1) REFRACTORY) (stateChangeCallbacks n1)
             @ map (\<lambda>k. StateChangeCallback k t REFRACTORY RESTING) (stateChangeCallbacks n1)"
        and hp: "heap w' t = Some (nd\<lparr>potential := 0, state := RESTING, outputSignals := outputSignals nd @ ps\<rparr>)"
        and fr: "\<forall>y. y \<noteq> t \<longrightarrow> frame y w1 w'"
        unfolding nd_def by blast
      show ?thesis
      proof (cases "x = t")
        case True
        have o: "outputSignals nd = outputSignals n @ (if outputSignals n = [] then [default_signal P n1] else [])"
          by (simp add: nd_def n1_def)
        have "frame t w w'"
          using ps
          by (intro self_grow [where sfx = "(if outputSignals n = [] then [default_signal P n1] else []) @ ps"
                and nv = "nd\<lparr>potential := 0, state := RESTING, outputSignals := outputSignals nd @ ps\<rparr>"
                and ext = "ext @ map (\<lambda>k. FireCallback k t) (fireCallbacks n1)
             @ map (\<lambda>k. StateChangeCallback k t (state n1) REFRACTORY) (stateChangeCallbacks n1)
             @ map (\<lambda>k. StateChangeCallback k t REFRACTORY RESTING) (stateChangeCallbacks n1)"])
            (simp_all add: tr t1 hp o)
        with True show ?thesis by simp
      next
        case False
        have a: "frame x w w1"
          using False by (intro frame_other [where t = t and ext = "[]"]) (simp_all add: hx1 t1)
        have b: "frame x w1 w'" using fr False by simp
        from a b show ?thesis by (rule frame_trans)
      qed
    qed
  qed
qed

lemma receive_frame:
  "receiveSignal P fuel t sg w = Some w' \<Longrightarrow> frame x w w'"
proof (induction fuel arbitrary: t sg w w' x)
  case 0
  then show ?case by simp
next
  case (Suc fuel)
  show ?case
  proof (cases sg)
    case None
    with Suc.prems have "w' = w" by (simp split: option.splits)
    then show ?thesis by (simp add: frame_refl)
  next
    case (Some s)
    with Suc.prems obtain n where n: "heap w t = Some n"
      and r: "Neuron_processSignals_with P (receiveSignal P fuel) t
                (put t (n\<lparr>inputSignals := inputSignals n @ [s]\<rparr>) w) = Some w'"
      by (cases "heap w t") simp_all
    show ?thesis
    proof (rule process_frame [OF _ n r])
      show "\<forall>tt sg v v' x. receiveSignal P fuel tt sg v = Some v' \<longrightarrow> frame x v v'"
        using Suc.IH by blast
    qed
  qed
qed



text \<open>
  The restriction to calls that return is needed. In the network \<open>A \<rightarrow> B\<close> with weight 1
  and \<open>B \<rightarrow> A\<close> with weight -1, a signal whose payload says \<open>"strength" = "0.9"\<close> makes \<open>A\<close>
  fire; its delivery makes \<open>B\<close> fire, whose delivery comes back to \<open>A\<close> and is processed
  there while the delivery loop of \<open>A\<close> is still running. The call has no defined outcome,
  whatever the bound on the depth of the nesting.
\<close>

lemma receive_feedback_undefined:
  "receiveSignal ieee_glibc fuel 0 (Some (setData ''strength'' ''0.9'' (Synapse_new ''sig'' EXCITATORY 1)))
     feedback = None"
proof -
  consider "fuel = 0" | "fuel = Suc 0" | "fuel = Suc (Suc 0)" | k where "fuel = Suc (Suc (Suc k))"
    by (metis not0_implies_Suc)
  then show ?thesis
  proof cases
    case 1
    then show ?thesis by simp
  next
    case 2
    then show ?thesis by (simp add: feedback_def neuron_eval platform_eval Let_def)
  next
    case 3
    then show ?thesis by (simp add: feedback_def neuron_eval platform_eval Let_def)
  next
    case 4
    then show ?thesis by (simp add: feedback_def neuron_eval platform_eval Let_def)
  qed
qed


section \<open>Neuron::fire\<close>

lemma relay_connect:
  "connectTo 0 (Some 1) weight
     \<lparr> heap = [0 \<mapsto> onFire 0 (Neuron_new ''A'' PROCESSING),
               1 \<mapsto> Neuron_setThreshold 0.5 (onFire 1 (Neuron_new ''B'' PROCESSING))],
       uuid_next = 0, trace = [] \<rparr> = Some (True, relay weight)"
  by (simp add: connectTo_def relay_def conn_find_def put_def neuron_eval Let_def fun_upd_twist)

lemma fold_opt_concat:
  "fold_opt f (concat xss) s = fold_opt (\<lambda>xs. fold_opt f xs) xss s"
proof (induction xss arbitrary: s)
  case Nil
  show ?case by simp
next
  case (Cons xs xss)
  have app: "fold_opt f (xs @ ys) t = (case fold_opt f xs t of None \<Rightarrow> None | Some t' \<Rightarrow> fold_opt f ys t')"
    for ys t
    by (induction xs arbitrary: t) (simp_all split: option.splits)
  show ?case by (simp add: app Cons.IH split: option.splits)
qed

lemma fire_flat:
  assumes "heap w a = Some n"
  shows "Neuron_fire_with P recv a w =
     (let n1 = (if outputSignals n = [] then n\<lparr>outputSignals := [default_signal P n]\<rparr> else n)
      in Option.bind
           (fold_opt (\<lambda>(target, weight, signal) v.
                        Option.bind (deliver P recv (nid n) target weight signal v)
                          (intact a (outputSignals n1)))
              (concat (map (\<lambda>(target, weight). map (\<lambda>signal. (target, weight, signal)) (outputSignals n1))
                         (connections n1)))
              (put a n1 w))
           (\<lambda>w2. case heap w2 a of
                    None \<Rightarrow> None
                  | Some n2 \<Rightarrow> Some (w2\<lparr>trace := trace w2 @ map (\<lambda>k. FireCallback k a) (fireCallbacks n2)\<rparr>)))"
proof -
  have inner: "fold_opt (\<lambda>(target, weight, signal) v. Option.bind (deliver P recv src target weight signal v) chk)
        (map (\<lambda>signal. (t, wt, signal)) sgs) v
      = fold_opt (\<lambda>signal v. Option.bind (deliver P recv src t wt signal v) chk) sgs v" for src t wt sgs v chk
    by (simp add: fold_opt_map)
  have outer: "fold_opt (\<lambda>(target, weight, signal) v. Option.bind (deliver P recv src target weight signal v) chk)
        (concat (map (\<lambda>(target, weight). map (\<lambda>signal. (target, weight, signal)) sgs) cs)) v
      = fold_opt (\<lambda>(target, weight).
                    fold_opt (\<lambda>signal v. Option.bind (deliver P recv src target weight signal v) chk) sgs) cs v"
    for src sgs cs v chk
    unfolding fold_opt_concat fold_opt_map
    by (rule arg_cong [where f = "\<lambda>f. fold_opt f cs v"]) (auto simp: inner fun_eq_iff)
  show ?thesis
    using assms unfolding outer
    by (simp add: Neuron_fire_with_def Let_def split: option.splits)
qed

lemma weighted_copy_view:
  "stringPayload (weighted_copy P src tgt weight uuid signal) ''strength''
      = Some (to_string P (f_mul P (signal_strength P signal) (f32 weight)))
   \<and> stringPayload (weighted_copy P src tgt weight uuid signal) ''from'' = Some src
   \<and> stringPayload (weighted_copy P src tgt weight uuid signal) ''to'' = Some tgt
   \<and> stringPayload (weighted_copy P src tgt weight uuid signal) ''derived_from'' = Some (syn_id signal)
   \<and> getStrength (weighted_copy P src tgt weight uuid signal) = clamp01 (getStrength signal)"
  by (simp add: weighted_copy_def Let_def setData_def getStrength_def strength_derive)
    (simp add: derive_def Let_def setData_def)

lemma weighted_copy_signal_view:
  "signal_view (weighted_copy P src tgt weight uuid signal) = copy_view P src tgt weight signal"
  using weighted_copy_view [of P src tgt weight uuid signal]
  by (simp add: signal_view_def copy_view_def)

lemma deliver_blocked:
  assumes "heap v t = Some tn" "blocked tn"
  shows "deliver P (receiveSignal P (Suc fuel)) src t weight signal v =
     Some ((put t (tn\<lparr>inputSignals := inputSignals tn @
                      [weighted_copy P src (nid tn) weight (generateUUID (uuid_next v)) signal]\<rparr>) v)
             \<lparr>uuid_next := Suc (uuid_next v)\<rparr>)"
  using assms
  by (auto simp: deliver_def Neuron_processSignals_with_def put_def blocked_def)

lemma deliveries_blocked:
  assumes "\<forall>d \<in> set ds. fst d \<noteq> a \<and> (\<exists>tn. heap v (fst d) = Some tn \<and> blocked tn)"
    and "heap v a = Some na" and "outputSignals na = outs"
  shows "\<exists>v'. fold_opt (\<lambda>(target, weight, signal) u.
                  Option.bind (deliver P (receiveSignal P (Suc fuel)) src target weight signal u) (intact a outs))
                ds v = Some v'
           \<and> trace v' = trace v
           \<and> (\<forall>x. heap v x = None \<longrightarrow> heap v' x = None)
           \<and> (\<forall>x nx. heap v x = Some nx \<longrightarrow>
                 (\<exists>buf. heap v' x = Some (nx\<lparr>inputSignals := buf\<rparr>)
                    \<and> map signal_view buf = map signal_view (inputSignals nx)
                         @ map (\<lambda>(t, weight, signal). copy_view P src (nid nx) weight signal)
                               (filter (\<lambda>d. fst d = x) ds)))"
  using assms
proof (induction ds arbitrary: v)
  case Nil
  have "\<exists>buf. heap v x = Some (nx\<lparr>inputSignals := buf\<rparr>)
           \<and> map signal_view buf = map signal_view (inputSignals nx)
                 @ map (\<lambda>(t, weight, signal). copy_view P src (nid nx) weight signal)
                       (filter (\<lambda>d. fst d = x) [])"
    if "heap v x = Some nx" for x nx
    using that by (intro exI [of _ "inputSignals nx"]) simp
  then show ?case by simp
next
  case (Cons d ds)
  obtain t weight signal where d: "d = (t, weight, signal)" by (cases d)
  from Cons.prems(1) d obtain tn where tn: "heap v t = Some tn" and bl: "blocked tn" and ta: "t \<noteq> a"
    by auto
  define c where "c = weighted_copy P src (nid tn) weight (generateUUID (uuid_next v)) signal"
  define v1 where "v1 = (put t (tn\<lparr>inputSignals := inputSignals tn @ [c]\<rparr>) v)\<lparr>uuid_next := Suc (uuid_next v)\<rparr>"
  have h1: "heap v1 x = (if x = t then Some (tn\<lparr>inputSignals := inputSignals tn @ [c]\<rparr>) else heap v x)" for x
    by (simp add: v1_def put_def)
  have a1: "heap v1 a = Some na" using Cons.prems(2) ta by (simp add: h1)
  have step: "Option.bind (deliver P (receiveSignal P (Suc fuel)) src t weight signal v) (intact a outs) = Some v1"
    unfolding deliver_blocked [OF tn bl]
    using a1 Cons.prems(3) by (simp add: intact_def v1_def c_def)
  have "\<forall>d' \<in> set ds. fst d' \<noteq> a \<and> (\<exists>tn'. heap v1 (fst d') = Some tn' \<and> blocked tn')"
    using Cons.prems(1) bl by (auto simp: h1 blocked_def)
  from Cons.IH [OF this a1 Cons.prems(3)] obtain v' where
    f: "fold_opt (\<lambda>(target, weight, signal) u.
                  Option.bind (deliver P (receiveSignal P (Suc fuel)) src target weight signal u) (intact a outs))
          ds v1 = Some v'"
    and tr: "trace v' = trace v1"
    and no: "\<forall>x. heap v1 x = None \<longrightarrow> heap v' x = None"
    and bu: "\<forall>x nx. heap v1 x = Some nx \<longrightarrow>
                 (\<exists>buf. heap v' x = Some (nx\<lparr>inputSignals := buf\<rparr>)
                    \<and> map signal_view buf = map signal_view (inputSignals nx)
                         @ map (\<lambda>(t, weight, signal). copy_view P src (nid nx) weight signal)
                               (filter (\<lambda>d. fst d = x) ds))"
    by blast
  have 1: "fold_opt (\<lambda>(target, weight, signal) u.
                  Option.bind (deliver P (receiveSignal P (Suc fuel)) src target weight signal u) (intact a outs))
             (d # ds) v = Some v'"
    using step f by (simp add: d)
  have 2: "trace v' = trace v" using tr by (simp add: v1_def put_def)
  have 3: "\<forall>x. heap v x = None \<longrightarrow> heap v' x = None"
  proof (intro allI impI)
    fix x assume x: "heap v x = None"
    with tn have "x \<noteq> t" by auto
    with x have "heap v1 x = None" by (simp add: h1)
    with no show "heap v' x = None" by blast
  qed
  have 4: "\<exists>buf. heap v' x = Some (nx\<lparr>inputSignals := buf\<rparr>)
                    \<and> map signal_view buf = map signal_view (inputSignals nx)
                         @ map (\<lambda>(t, weight, signal). copy_view P src (nid nx) weight signal)
                               (filter (\<lambda>d. fst d = x) (d # ds))"
    if nx: "heap v x = Some nx" for x nx
  proof (cases "x = t")
    case True
    with nx tn have eq: "nx = tn" by simp
    from bu [rule_format, of t "tn\<lparr>inputSignals := inputSignals tn @ [c]\<rparr>"] obtain buf where
      b1: "heap v' t = Some (tn\<lparr>inputSignals := buf\<rparr>)"
      and b2: "map signal_view buf = map signal_view (inputSignals tn @ [c])
                 @ map (\<lambda>(t, weight, signal). copy_view P src (nid tn) weight signal)
                       (filter (\<lambda>d. fst d = t) ds)"
      by (auto simp: h1)
    show ?thesis
      using b1 b2
      by (intro exI [of _ buf]) (simp add: True eq d c_def weighted_copy_signal_view)
  next
    case False
    with nx have "heap v1 x = Some nx" by (simp add: h1)
    from bu [rule_format, OF this] False show ?thesis by (simp add: d)
  qed
  show ?case using 1 2 3 4 by blast
qed

lemma filter_target:
  fixes cs :: "(addr \<times> real) list" and t :: addr
  assumes "distinct (map fst cs)" "(t, weight) \<in> set cs"
  shows "filter (\<lambda>d. fst d = t)
           (concat (map (\<lambda>(target, weight). map (\<lambda>signal. (target, weight, signal)) sgs) cs))
         = map (\<lambda>signal. (t, weight, signal)) sgs"
  using assms
proof (induction cs)
  case Nil
  then show ?case by simp
next
  case (Cons c cs)
  obtain t' w' where c: "c = (t', w')" by (cases c)
  have none: "filter (\<lambda>d. fst d = t)
           (concat (map (\<lambda>(target, weight). map (\<lambda>signal. (target, weight, signal)) sgs) cs')) = []"
    if "t \<notin> fst ` set cs'" for cs' :: "(addr \<times> real) list"
    using that by (induction cs') (auto simp: filter_empty_conv)
  show ?case
  proof (cases "t' = t")
    case True
    with Cons.prems c have "w' = weight" and "t \<notin> fst ` set cs"
      by (auto simp: image_iff)
    with True c none show ?thesis by (simp add: filter_map comp_def)
  next
    case False
    with Cons c show ?thesis by (auto simp: filter_empty_conv)
  qed
qed

text \<open>
  Claim C2, as the code has it, on any platform \<open>P\<close>. A call of \<open>fire\<close> on a neuron \<open>n\<close>
  (after the default signal has been made when \<open>n\<close> holds no output signal) is the
  sequence, over the edges in key order and for each edge over the output signals in
  order, of one call of \<open>receiveSignal\<close> on the target with a derived copy, followed by
  one invocation of each fire listener; there is one delivery for each pair of an edge
  and an output signal, and the call has no defined outcome when a delivery changes the
  output signals of \<open>n\<close>. When the call returns, the trace ends with the invocations of
  the fire listeners of \<open>n\<close>, each once, and holds no other invocation of a listener of
  \<open>n\<close>. The copy keeps the strength field of the signal; its payload says \<open>"strength"\<close> =
  the text that \<^verbatim>\<open>std::to_string\<close> gives for the product, in \<^verbatim>\<open>float\<close>, of the signal's
  payload strength (\<^verbatim>\<open>0.5f\<close> by default) and the weight, which is not clamped,
  \<open>"from"\<close> = the firing neuron and \<open>"to"\<close> = the target. When the targets are blocked,
  so that the copies can be seen in their buffers, each target's buffer grows by exactly
  the copies of the output signals, in order. On the platform of reference, in the
  network \<open>A \<rightarrow> B\<close> with weight 0.9 and thresholds 0.5, a signal whose payload strength is
  0.9 makes \<open>A\<close> fire with the potential \<^verbatim>\<open>0.9f\<close> (the strength of its default signal) and
  deliver the text \<^verbatim>\<open>0.810000\<close> to \<open>B\<close>, which fires once, before the listener of \<open>A\<close> is
  invoked.
\<close>

theorem fire_delivers:
  fixes P :: platform and w :: World and n :: Neuron
  defines "n1 \<equiv> (if outputSignals n = [] then n\<lparr>outputSignals := [default_signal P n]\<rparr> else n)"
  defines "deliveries \<equiv>
    concat (map (\<lambda>(target, weight). map (\<lambda>signal. (target, weight, signal)) (outputSignals n1))
              (connections n1))"
  assumes n: "heap w a = Some n"
  shows "Neuron_fire P fuel a w =
           Option.bind
             (fold_opt (\<lambda>(target, weight, signal) v.
                          case heap v target of
                            None \<Rightarrow> None
                          | Some tn \<Rightarrow>
                              Option.bind
                                (receiveSignal P fuel target
                                   (Some (weighted_copy P (nid n) (nid tn) weight (generateUUID (uuid_next v)) signal))
                                   (v\<lparr>uuid_next := Suc (uuid_next v)\<rparr>))
                                (intact a (outputSignals n1)))
                deliveries (put a n1 w))
             (\<lambda>w2. case heap w2 a of
                      None \<Rightarrow> None
                    | Some n2 \<Rightarrow> Some (w2\<lparr>trace := trace w2 @ map (\<lambda>k. FireCallback k a) (fireCallbacks n2)\<rparr>))
       \<and> length deliveries = length (connections n) * length (outputSignals n1)
       \<and> (\<forall>w'. Neuron_fire P fuel a w = Some w' \<longrightarrow>
            (\<exists>ext. trace w' = trace w @ ext @ map (\<lambda>k. FireCallback k a) (fireCallbacks n)
                \<and> (\<forall>ev \<in> set ext. event_neuron ev \<noteq> Some a)))
       \<and> signal_view (weighted_copy P src tgt weight uuid signal)
           = (clamp01 (getStrength signal),
              Some (to_string P (f_mul P (signal_strength P signal) (f32 weight))), Some src, Some tgt)
       \<and> (distinct (map fst (connections n))
            \<and> (\<forall>c \<in> set (connections n). fst c \<noteq> a \<and> (\<exists>tn. heap w (fst c) = Some tn \<and> blocked tn))
          \<longrightarrow> (\<exists>w'. Neuron_fire P (Suc fuel) a w = Some w'
                  \<and> trace w' = trace w @ map (\<lambda>k. FireCallback k a) (fireCallbacks n)
                  \<and> (\<forall>t wt tn. (t, wt) \<in> set (connections n) \<and> heap w t = Some tn \<longrightarrow>
                        (\<exists>buf. heap w' t = Some (tn\<lparr>inputSignals := buf\<rparr>)
                           \<and> map signal_view buf = map signal_view (inputSignals tn)
                                @ map (copy_view P (nid n) (nid tn) wt) (outputSignals n1)))))
       \<and> observe 1 (receiveSignal ieee_glibc (Suc (Suc 0)) 0
             (Some (setData ''strength'' ''0.9'' (Synapse_new ''sig'' EXCITATORY 1))) (relay 0.9))
           = Some (RESTING, 0, [FireCallback 1 1, FireCallback 0 0])
       \<and> buffered 1 (receiveSignal ieee_glibc (Suc (Suc 0)) 0
             (Some (setData ''strength'' ''0.9'' (Synapse_new ''sig'' EXCITATORY 1))) (relay 0.9))
           = Some [(1, Some ''0.810000'', None, None), (1, Some ''0.810000'', Some ''A'', Some ''B'')]
       \<and> buffered 0 (receiveSignal ieee_glibc (Suc (Suc 0)) 0
             (Some (setData ''strength'' ''0.9'' (Synapse_new ''sig'' EXCITATORY 1))) (relay 0.9))
           = Some [(1, Some ''0.900000'', None, None), (1, Some ''0.9'', None, None)]"
proof (intro conjI impI allI)
  have same: "connections n1 = connections n" "nid n1 = nid n" "fireCallbacks n1 = fireCallbacks n"
    by (simp_all add: n1_def)
  have del: "(\<lambda>(target, weight, signal) v. Option.bind (deliver P recv src target weight signal v) chk) =
      (\<lambda>(target, weight, signal) v.
          case heap v target of
            None \<Rightarrow> None
          | Some tn \<Rightarrow>
              Option.bind
                (recv target (Some (weighted_copy P src (nid tn) weight (generateUUID (uuid_next v)) signal))
                   (v\<lparr>uuid_next := Suc (uuid_next v)\<rparr>))
                chk)" for recv src chk
    by (auto simp: fun_eq_iff deliver_def split: option.splits)
  have flat: "Neuron_fire_with P recv a w =
      Option.bind
        (fold_opt (\<lambda>(target, weight, signal) v.
                     Option.bind (deliver P recv (nid n) target weight signal v) (intact a (outputSignals n1)))
           deliveries (put a n1 w))
        (\<lambda>w2. case heap w2 a of
                 None \<Rightarrow> None
               | Some n2 \<Rightarrow> Some (w2\<lparr>trace := trace w2 @ map (\<lambda>k. FireCallback k a) (fireCallbacks n2)\<rparr>))"
    for recv
    using fire_flat [OF n, of P recv] by (simp add: Let_def n1_def deliveries_def)
  show "Neuron_fire P fuel a w =
           Option.bind
             (fold_opt (\<lambda>(target, weight, signal) v.
                          case heap v target of
                            None \<Rightarrow> None
                          | Some tn \<Rightarrow>
                              Option.bind
                                (receiveSignal P fuel target
                                   (Some (weighted_copy P (nid n) (nid tn) weight (generateUUID (uuid_next v)) signal))
                                   (v\<lparr>uuid_next := Suc (uuid_next v)\<rparr>))
                                (intact a (outputSignals n1)))
                deliveries (put a n1 w))
             (\<lambda>w2. case heap w2 a of
                      None \<Rightarrow> None
                    | Some n2 \<Rightarrow> Some (w2\<lparr>trace := trace w2 @ map (\<lambda>k. FireCallback k a) (fireCallbacks n2)\<rparr>))"
    unfolding Neuron_fire_def flat del ..
  show "length deliveries = length (connections n) * length (outputSignals n1)"
  proof -
    have "length (concat (map (\<lambda>(target, weight). map (\<lambda>signal. (target, weight, signal)) sgs) cs))
        = length cs * length sgs" for cs :: "(addr \<times> real) list" and sgs :: "Synapse list"
      by (induction cs) (auto split: prod.splits)
    then show ?thesis by (simp add: deliveries_def same)
  qed
  {
    fix w'
    assume r: "Neuron_fire P fuel a w = Some w'"
    have H: "\<forall>tt sg v v' x. receiveSignal P fuel tt sg v = Some v' \<longrightarrow> frame x v v'"
      using receive_frame by blast
    from fire_frame [OF H n r [unfolded Neuron_fire_def]]
    show "\<exists>ext. trace w' = trace w @ ext @ map (\<lambda>k. FireCallback k a) (fireCallbacks n)
                \<and> (\<forall>ev \<in> set ext. event_neuron ev \<noteq> Some a)"
      by blast
  }
  show "signal_view (weighted_copy P src tgt weight uuid signal)
           = (clamp01 (getStrength signal),
              Some (to_string P (f_mul P (signal_strength P signal) (f32 weight))), Some src, Some tgt)"
    by (simp add: weighted_copy_signal_view copy_view_def)
  {
    assume h: "distinct (map fst (connections n))
        \<and> (\<forall>c \<in> set (connections n). fst c \<noteq> a \<and> (\<exists>tn. heap w (fst c) = Some tn \<and> blocked tn))"
    let ?v = "put a n1 w"
    have hv: "heap ?v x = (if x = a then Some n1 else heap w x)" for x
      by (simp add: put_def)
    have tg: "fst d \<in> fst ` set (connections n)" if "d \<in> set deliveries" for d
      using that by (force simp: deliveries_def same image_iff)
    have "\<forall>d \<in> set deliveries. fst d \<noteq> a \<and> (\<exists>tn. heap ?v (fst d) = Some tn \<and> blocked tn)"
    proof
      fix d assume "d \<in> set deliveries"
      from tg [OF this] obtain c where c: "c \<in> set (connections n)" and f: "fst d = fst c" by auto
      with h show "fst d \<noteq> a \<and> (\<exists>tn. heap ?v (fst d) = Some tn \<and> blocked tn)" by (auto simp: hv)
    qed
    from deliveries_blocked [OF this, of n1 "outputSignals n1" P fuel "nid n"] obtain v' where
      f: "fold_opt (\<lambda>(target, weight, signal) u.
            Option.bind (deliver P (receiveSignal P (Suc fuel)) (nid n) target weight signal u)
              (intact a (outputSignals n1)))
            deliveries ?v = Some v'"
      and tr: "trace v' = trace ?v"
      and bu: "\<forall>x nx. heap ?v x = Some nx \<longrightarrow>
                 (\<exists>buf. heap v' x = Some (nx\<lparr>inputSignals := buf\<rparr>)
                    \<and> map signal_view buf = map signal_view (inputSignals nx)
                         @ map (\<lambda>(t, weight, signal). copy_view P (nid n) (nid nx) weight signal)
                               (filter (\<lambda>d. fst d = x) deliveries))"
      by (auto simp: hv)
    from bu [rule_format, of a n1] obtain bufa where ha: "heap v' a = Some (n1\<lparr>inputSignals := bufa\<rparr>)"
      by (auto simp: hv)
    define w' where "w' = v'\<lparr>trace := trace v' @ map (\<lambda>k. FireCallback k a) (fireCallbacks n)\<rparr>"
    have r: "Neuron_fire P (Suc fuel) a w = Some w'"
      unfolding Neuron_fire_def flat f by (simp add: ha same w'_def)
    have t: "trace w' = trace w @ map (\<lambda>k. FireCallback k a) (fireCallbacks n)"
      using tr by (simp add: w'_def put_def)
    have b: "\<exists>buf. heap w' t = Some (tn\<lparr>inputSignals := buf\<rparr>)
                           \<and> map signal_view buf = map signal_view (inputSignals tn)
                                @ map (copy_view P (nid n) (nid tn) wt) (outputSignals n1)"
      if c: "(t, wt) \<in> set (connections n) \<and> heap w t = Some tn" for t wt tn
    proof -
      from c h have ta: "t \<noteq> a" by auto
      with c have "heap ?v t = Some tn" by (simp add: hv)
      from bu [rule_format, OF this] obtain buf where
        b1: "heap v' t = Some (tn\<lparr>inputSignals := buf\<rparr>)"
        and b2: "map signal_view buf = map signal_view (inputSignals tn)
                         @ map (\<lambda>(t, weight, signal). copy_view P (nid n) (nid tn) weight signal)
                               (filter (\<lambda>d. fst d = t) deliveries)"
        by blast
      have "filter (\<lambda>d. fst d = t) deliveries = map (\<lambda>signal. (t, wt, signal)) (outputSignals n1)"
        unfolding deliveries_def same using h c by (intro filter_target) simp_all
      with b1 b2 show ?thesis
        by (intro exI [of _ buf]) (simp add: w'_def comp_def)
    qed
    show "\<exists>w'. Neuron_fire P (Suc fuel) a w = Some w'
                  \<and> trace w' = trace w @ map (\<lambda>k. FireCallback k a) (fireCallbacks n)
                  \<and> (\<forall>t wt tn. (t, wt) \<in> set (connections n) \<and> heap w t = Some tn \<longrightarrow>
                        (\<exists>buf. heap w' t = Some (tn\<lparr>inputSignals := buf\<rparr>)
                           \<and> map signal_view buf = map signal_view (inputSignals tn)
                                @ map (copy_view P (nid n) (nid tn) wt) (outputSignals n1)))"
      using r t b by blast
  }
  show "observe 1 (receiveSignal ieee_glibc (Suc (Suc 0)) 0
             (Some (setData ''strength'' ''0.9'' (Synapse_new ''sig'' EXCITATORY 1))) (relay 0.9))
           = Some (RESTING, 0, [FireCallback 1 1, FireCallback 0 0])"
    by (simp add: observe_def relay_def neuron_eval platform_eval Let_def)
  show "buffered 1 (receiveSignal ieee_glibc (Suc (Suc 0)) 0
             (Some (setData ''strength'' ''0.9'' (Synapse_new ''sig'' EXCITATORY 1))) (relay 0.9))
           = Some [(1, Some ''0.810000'', None, None), (1, Some ''0.810000'', Some ''A'', Some ''B'')]"
    by (simp add: buffered_def relay_def neuron_eval platform_eval getStrength_def Let_def)
  show "buffered 0 (receiveSignal ieee_glibc (Suc (Suc 0)) 0
             (Some (setData ''strength'' ''0.9'' (Synapse_new ''sig'' EXCITATORY 1))) (relay 0.9))
           = Some [(1, Some ''0.900000'', None, None), (1, Some ''0.9'', None, None)]"
    by (simp add: buffered_def relay_def neuron_eval platform_eval getStrength_def Let_def)
qed

text \<open>
  Claim C2 as stated fails. A neuron holding an output signal of strength 0.5 whose payload
  strength is 0.9 fires into an edge of weight 2: the copy delivered has payload strength
  1.8, outside the unit interval, and strength field 0.5, which is neither product
  clamped. And in the network \<open>A \<rightarrow> B\<close> with weight 0.9, a signal constructed with strength
  0.9 and no payload contributes 0.5 to \<open>A\<close>: \<open>A\<close> fires, \<open>B\<close> receives 0.45 and does not.
\<close>

theorem fire_delivers_counterexample:
  "buffered 1 (Some overdrive) = Some []
   \<and> buffered 0 (Some overdrive) = Some [(0.5, Some ''0.9'', None, None)]
   \<and> getConnectionWeight 0 1 overdrive = 2
   \<and> buffered 1 (Neuron_fire ieee_glibc (Suc 0) 0 overdrive)
       = Some [(0.5, Some ''1.800000'', Some ''A'', Some ''B'')]
   \<and> stof ieee_glibc ''1.800000'' = Some (f32 1.8)
   \<and> clamp01 (0.9 * 2) = 1 \<and> clamp01 (0.5 * 2) = 1
   \<and> getStrength (Synapse_new ''sig'' EXCITATORY 0.9) = 0.9
   \<and> observe 1 (receiveSignal ieee_glibc (Suc (Suc 0)) 0 (Some (Synapse_new ''sig'' EXCITATORY 0.9)) (relay 0.9))
       = Some (RESTING, f32 0.45, [FireCallback 0 0])"
  by (simp add: buffered_def observe_def overdrive_def relay_def getConnectionWeight_def conn_find_def
      Neuron_fire_def neuron_eval platform_eval getStrength_def Let_def)

text \<open>
  On the platform of reference, \<open>A\<close> with potential \<^verbatim>\<open>0.9f\<close> fires into the edge \<open>A \<rightarrow> B\<close>
  of weight 0.9, \<open>B\<close> being inhibited: the buffer of \<open>B\<close> holds one copy, with payload
  strength \<^verbatim>\<open>0.810000\<close>, and the fire listener of \<open>A\<close> has been invoked once.
\<close>

theorem fire_delivers_witness:
  "\<exists>w'. Neuron_fire ieee_glibc (Suc 0) 0 parked = Some w'
      \<and> trace w' = [FireCallback 0 0]
      \<and> filter (\<lambda>ev. event_neuron ev = Some 0) (trace w') = [FireCallback 0 0]
      \<and> (\<exists>buf. heap w' 1 = Some ((Neuron_new ''B'' PROCESSING)\<lparr>inputs := [0], state := INHIBITED,
                                     inputSignals := buf\<rparr>)
            \<and> map signal_view buf = [(1, Some ''0.810000'', Some ''A'', Some ''B'')])"
proof -
  define A where "A = (onFire 0 (Neuron_new ''A'' PROCESSING))\<lparr>connections := [(1, 0.9)], potential := f32 0.9\<rparr>"
  define B where "B = (Neuron_new ''B'' PROCESSING)\<lparr>inputs := [0], state := INHIBITED\<rparr>"
  have a: "heap parked 0 = Some A" and b: "heap parked 1 = Some B"
    by (simp_all add: parked_def A_def B_def)
  have facts: "connections A = [(1, 0.9)]" "fireCallbacks A = [0]" "outputSignals A = []"
    "nid A = ''A''" "nid B = ''B''" "inputSignals B = []" "trace parked = []"
    by (simp_all add: A_def B_def parked_def neuron_eval)
  have bl: "blocked B" by (simp add: blocked_def B_def)
  have pre: "distinct (map fst (connections A))
      \<and> (\<forall>c \<in> set (connections A). fst c \<noteq> 0 \<and> (\<exists>tn. heap parked (fst c) = Some tn \<and> blocked tn))"
    using b bl by (simp add: facts)
  have cv: "copy_view ieee_glibc ''A'' ''B'' 0.9 (default_signal ieee_glibc A)
      = (1, Some ''0.810000'', Some ''A'', Some ''B'')"
    by (simp add: copy_view_def A_def neuron_eval getStrength_def platform_eval Let_def)
  from fire_delivers [OF a, where P = ieee_glibc and fuel = 0] pre
  obtain w' where r: "Neuron_fire ieee_glibc (Suc 0) 0 parked = Some w'"
    and t0: "trace w' = trace parked @ map (\<lambda>k. FireCallback k 0) (fireCallbacks A)"
    and d: "\<forall>t wt tn. (t, wt) \<in> set (connections A) \<and> heap parked t = Some tn \<longrightarrow>
              (\<exists>buf. heap w' t = Some (tn\<lparr>inputSignals := buf\<rparr>)
                 \<and> map signal_view buf = map signal_view (inputSignals tn)
                      @ map (copy_view ieee_glibc (nid A) (nid tn) wt)
                          (outputSignals (if outputSignals A = []
                             then A\<lparr>outputSignals := [default_signal ieee_glibc A]\<rparr> else A)))"
    by blast
  from fire_delivers [OF a, where P = ieee_glibc and fuel = "Suc 0"] r
  obtain ext where "trace w' = trace parked @ ext @ map (\<lambda>k. FireCallback k 0) (fireCallbacks A)"
    and "\<forall>ev \<in> set ext. event_neuron ev \<noteq> Some 0"
    by blast
  then have once: "filter (\<lambda>ev. event_neuron ev = Some 0) (trace w') = [FireCallback 0 0]"
    by (simp add: facts filter_empty_conv)
  from d [rule_format, of 1 "0.9" B] b obtain buf where
    b1: "heap w' 1 = Some (B\<lparr>inputSignals := buf\<rparr>)"
    and b2: "map signal_view buf = [(1, Some ''0.810000'', Some ''A'', Some ''B'')]"
    by (auto simp: facts cv)
  have t': "trace w' = [FireCallback 0 0]" using t0 by (simp add: facts)
  show ?thesis
    using r t' once b1 b2 unfolding B_def
    by (intro exI [of _ w'] conjI exI [of _ buf])
qed

end
